theory Spec2Isabelle
  imports Main "HOL-Library.Word"
begin

section \<open>JavaScript strings\<close>

text \<open>
  A JavaScript string is a sequence of UTF-16 code units. String literals of the program
  are written with \<open>str\<close>, which embeds an ASCII literal; characters outside ASCII are
  given by their code units.
\<close>

type_synonym cu = "16 word"
type_synonym jsstring = "cu list"
type_synonym byte = "8 word"

definition str :: "string \<Rightarrow> jsstring" where
  "str s = map (\<lambda>c. of_nat (of_char c)) s"

text \<open>
  The character classes of the two regular expressions. \<open>\s\<close> is WhiteSpace and
  LineTerminator of ECMAScript, which is also what \<open>trim()\<close> strips. Without the
  \<open>u\<close> flag \<open>\w\<close> is the ASCII class, also under the \<open>i\<close> flag.
\<close>

definition isSpace :: "cu \<Rightarrow> bool" where
  "isSpace c \<longleftrightarrow>
     c = 0x09 \<or> c = 0x0A \<or> c = 0x0B \<or> c = 0x0C \<or> c = 0x0D \<or> c = 0x20 \<or> c = 0xA0 \<or>
     c = 0x1680 \<or> (0x2000 \<le> c \<and> c \<le> 0x200A) \<or> c = 0x2028 \<or> c = 0x2029 \<or>
     c = 0x202F \<or> c = 0x205F \<or> c = 0x3000 \<or> c = 0xFEFF"

definition isWord :: "cu \<Rightarrow> bool" where
  "isWord c \<longleftrightarrow>
     (0x41 \<le> c \<and> c \<le> 0x5A) \<or> (0x61 \<le> c \<and> c \<le> 0x7A) \<or> (0x30 \<le> c \<and> c \<le> 0x39) \<or> c = 0x5F"

definition isNameCh :: "cu \<Rightarrow> bool" where
  "isNameCh c \<longleftrightarrow> isWord c \<or> c = 0x2E \<or> c = 0x2F \<or> c = 0x2D"

definition isNL :: "cu \<Rightarrow> bool" where
  "isNL c \<longleftrightarrow> c = 0x0A \<or> c = 0x0D"

definition anyCh :: "cu \<Rightarrow> bool" where
  "anyCh c \<longleftrightarrow> True"

definition notGt :: "cu \<Rightarrow> bool" where
  "notGt c \<longleftrightarrow> c \<noteq> 0x3E"

text \<open>
  Canonicalize of a regular expression with the \<open>i\<close> flag and without the \<open>u\<close> flag,
  on the characters the two patterns compare with: an ASCII letter is compared by its
  upper case, and a code unit from 128 on never canonicalizes to an ASCII character, so
  against the ASCII literals of the patterns it is compared as it is.
\<close>

definition canon :: "cu \<Rightarrow> cu" where
  "canon c = (if 0x61 \<le> c \<and> c \<le> 0x7A then c - 0x20 else c)"

definition trim :: "jsstring \<Rightarrow> jsstring" where
  "trim s = rev (dropWhile isSpace (rev (dropWhile isSpace s)))"

fun startsWith :: "jsstring \<Rightarrow> jsstring \<Rightarrow> bool" where
  "startsWith s [] = True"
| "startsWith [] (p # ps) = False"
| "startsWith (c # cs) (p # ps) = (c = p \<and> startsWith cs ps)"

fun js_includes :: "jsstring \<Rightarrow> jsstring \<Rightarrow> bool" where
  "js_includes [] p = (p = [])"
| "js_includes (c # cs) p = (startsWith (c # cs) p \<or> js_includes cs p)"

text \<open>
  \<open>s.replace(pat, rep)\<close> with a string pattern: the first occurrence of \<open>pat\<close> in
  \<open>s\<close> is replaced, and \<open>s\<close> is returned as it is when there is none. The
  replacement templates of this program hold no dollar sign (a file name is made of
  \<open>\w\<close>, dot, slash and hyphen), so no substitution pattern is expanded.
\<close>

fun replaceFirst :: "jsstring \<Rightarrow> jsstring \<Rightarrow> jsstring \<Rightarrow> jsstring" where
  "replaceFirst [] pat rep = (if pat = [] then rep else [])"
| "replaceFirst (c # cs) pat rep =
     (if startsWith (c # cs) pat then rep @ drop (length pat) (c # cs)
      else c # replaceFirst cs pat rep)"

section \<open>Backtracking matchers\<close>

text \<open>
  A regular expression is matched at a position by backtracking: each piece of the
  pattern takes the rest of the input and a continuation for the rest of the pattern,
  and answers \<open>None\<close> when no way of matching the piece lets the continuation
  succeed. A greedy star tries the longest run first, a lazy star the shortest.
\<close>

type_synonym 'a cont = "jsstring \<Rightarrow> 'a option"

fun lit :: "jsstring \<Rightarrow> 'a cont \<Rightarrow> 'a cont" where
  "lit [] k s = k s"
| "lit (p # ps) k [] = None"
| "lit (p # ps) k (c # cs) = (if canon c = canon p then lit ps k cs else None)"

fun star_greedy :: "(cu \<Rightarrow> bool) \<Rightarrow> 'a cont \<Rightarrow> 'a cont" where
  "star_greedy P k [] = k []"
| "star_greedy P k (c # cs) =
     (if P c then (case star_greedy P k cs of Some r \<Rightarrow> Some r | None \<Rightarrow> k (c # cs))
      else k (c # cs))"

fun star_lazy :: "(cu \<Rightarrow> bool) \<Rightarrow> 'a cont \<Rightarrow> 'a cont" where
  "star_lazy P k [] = k []"
| "star_lazy P k (c # cs) =
     (case k (c # cs) of Some r \<Rightarrow> Some r
      | None \<Rightarrow> if P c then star_lazy P k cs else None)"

fun one :: "(cu \<Rightarrow> bool) \<Rightarrow> 'a cont \<Rightarrow> 'a cont" where
  "one P k [] = None"
| "one P k (c # cs) = (if P c then k cs else None)"

definition plus_greedy :: "(cu \<Rightarrow> bool) \<Rightarrow> 'a cont \<Rightarrow> 'a cont" where
  "plus_greedy P k = one P (star_greedy P k)"

text \<open>The text matched between two positions: \<open>s'\<close> is a suffix of \<open>s\<close>.\<close>

definition consumed :: "jsstring \<Rightarrow> jsstring \<Rightarrow> jsstring" where
  "consumed s s' = take (length s - length s') s"

text \<open>
  \<open>s.match(re)\<close> for a pattern without the \<open>g\<close> flag: the match at the leftmost
  position that has one.
\<close>

fun regexSearch :: "'a cont \<Rightarrow> 'a cont" where
  "regexSearch m [] = m []"
| "regexSearch m (c # cs) =
     (case m (c # cs) of Some r \<Rightarrow> Some r | None \<Rightarrow> regexSearch m cs)"

section \<open>The transport encoding\<close>

text \<open>
  \<open>TextEncoder.encode\<close> first reads the string as scalar values: a high surrogate
  followed by a low one is one supplementary code point, and a surrogate on its own
  is replaced by U+FFFD.
\<close>

definition isHigh :: "cu \<Rightarrow> bool" where
  "isHigh c \<longleftrightarrow> 0xD800 \<le> c \<and> c \<le> 0xDBFF"

definition isLow :: "cu \<Rightarrow> bool" where
  "isLow c \<longleftrightarrow> 0xDC00 \<le> c \<and> c \<le> 0xDFFF"

definition lone :: "cu \<Rightarrow> nat" where
  "lone c = (if isHigh c \<or> isLow c then 0xFFFD else unat c)"

fun scalarValues :: "jsstring \<Rightarrow> nat list" where
  "scalarValues [] = []"
| "scalarValues [c] = [lone c]"
| "scalarValues (c # d # cs) =
     (if isHigh c \<and> isLow d
      then (0x10000 + (unat c - 0xD800) * 0x400 + (unat d - 0xDC00)) # scalarValues cs
      else lone c # scalarValues (d # cs))"

text \<open>UTF-8: one to four bytes for a scalar value.\<close>

definition utf8_bytes :: "nat \<Rightarrow> byte list" where
  "utf8_bytes n =
     (if n < 0x80 then [of_nat n]
      else if n < 0x800 then [of_nat (0xC0 + n div 0x40), of_nat (0x80 + n mod 0x40)]
      else if n < 0x10000 then
        [of_nat (0xE0 + n div 0x1000), of_nat (0x80 + n div 0x40 mod 0x40), of_nat (0x80 + n mod 0x40)]
      else
        [of_nat (0xF0 + n div 0x40000), of_nat (0x80 + n div 0x1000 mod 0x40),
         of_nat (0x80 + n div 0x40 mod 0x40), of_nat (0x80 + n mod 0x40)])"

definition utf8_encode :: "jsstring \<Rightarrow> byte list" where
  "utf8_encode s = concat (map utf8_bytes (scalarValues s))"

text \<open>
  The loop of \<open>toBase64\<close>: one code unit per byte, by \<open>String.fromCharCode\<close>.
\<close>

definition binString :: "byte list \<Rightarrow> jsstring" where
  "binString bytes = map ucast bytes"

text \<open>
  The standard base64 alphabet, and \<open>btoa\<close>: it throws InvalidCharacterError on a code
  unit above 255, and encodes three bytes as four characters, padding with \<open>=\<close>.
\<close>

definition b64chr :: "nat \<Rightarrow> cu" where
  "b64chr n =
     (if n < 26 then of_nat (0x41 + n)
      else if n < 52 then of_nat (0x61 + (n - 26))
      else if n < 62 then of_nat (0x30 + (n - 52))
      else if n = 62 then 0x2B else 0x2F)"

fun base64 :: "nat list \<Rightarrow> jsstring" where
  "base64 [] = []"
| "base64 [a] = [b64chr (a div 4), b64chr (a mod 4 * 16), 0x3D, 0x3D]"
| "base64 [a, b] = [b64chr (a div 4), b64chr (a mod 4 * 16 + b div 16), b64chr (b mod 16 * 4), 0x3D]"
| "base64 (a # b # c # bs) =
     [b64chr (a div 4), b64chr (a mod 4 * 16 + b div 16), b64chr (b mod 16 * 4 + c div 64),
      b64chr (c mod 64)] @ base64 bs"

definition btoa_std :: "jsstring \<Rightarrow> jsstring + jsstring" where
  "btoa_std s =
     (if list_ex (\<lambda>c. 0xFF < c) s then Inl (str ''InvalidCharacterError'')
      else Inr (base64 (map unat s)))"

text \<open>
  \<open>toBase64\<close>. The two calls into the platform that can throw are the fields of
  \<open>platform\<close>: each answers its result, or the message of the exception it throws.
  The \<open>catch\<close> logs the exception and returns the empty string.
\<close>

record platform =
  textEncode :: "jsstring \<Rightarrow> jsstring + byte list"
  btoa :: "jsstring \<Rightarrow> jsstring + jsstring"

definition toBase64 :: "platform \<Rightarrow> jsstring \<Rightarrow> jsstring" where
  "toBase64 pf s =
     (case textEncode pf s of
        Inl e \<Rightarrow> []
      | Inr bytes \<Rightarrow> (case btoa pf (binString bytes) of Inl e \<Rightarrow> [] | Inr r \<Rightarrow> r))"

text \<open>The platform of the standards: \<open>TextEncoder.encode\<close> never throws.\<close>

definition std :: platform where
  "std = \<lparr>textEncode = (\<lambda>s. Inr (utf8_encode s)), btoa = btoa_std\<rparr>"

text \<open>
  The way back, as the receiver of the content takes it: base64 decoding (RFC 4648,
  with padding), then strict UTF-8 decoding to scalar values, then the string of
  those. Each step answers \<open>None\<close> on input that is not an encoding.
\<close>

definition b64val :: "cu \<Rightarrow> nat option" where
  "b64val c =
     (if 0x41 \<le> c \<and> c \<le> 0x5A then Some (unat c - 0x41)
      else if 0x61 \<le> c \<and> c \<le> 0x7A then Some (unat c - 0x61 + 26)
      else if 0x30 \<le> c \<and> c \<le> 0x39 then Some (unat c - 0x30 + 52)
      else if c = 0x2B then Some 62
      else if c = 0x2F then Some 63
      else None)"

fun base64_decode :: "jsstring \<Rightarrow> byte list option" where
  "base64_decode [] = Some []"
| "base64_decode (a # b # c # d # cs) =
     (case (b64val a, b64val b) of
        (Some x, Some y) \<Rightarrow>
          (if c = 0x3D \<and> d = 0x3D \<and> cs = [] then Some [of_nat (x * 4 + y div 16)]
           else (case b64val c of
                   None \<Rightarrow> None
                 | Some z \<Rightarrow>
                     (if d = 0x3D \<and> cs = []
                      then Some [of_nat (x * 4 + y div 16), of_nat (y mod 16 * 16 + z div 4)]
                      else (case (b64val d, base64_decode cs) of
                              (Some w, Some bs) \<Rightarrow>
                                Some (of_nat (x * 4 + y div 16) # of_nat (y mod 16 * 16 + z div 4)
                                      # of_nat (z mod 4 * 64 + w) # bs)
                            | _ \<Rightarrow> None))))
      | _ \<Rightarrow> None)"
| "base64_decode _ = None"

definition cont_byte :: "byte \<Rightarrow> bool" where
  "cont_byte b \<longleftrightarrow> 0x80 \<le> b \<and> b \<le> 0xBF"

definition scalar :: "nat \<Rightarrow> bool" where
  "scalar n \<longleftrightarrow> n < 0xD800 \<or> (0xDFFF < n \<and> n < 0x110000)"

fun utf8_decode :: "byte list \<Rightarrow> nat list option" where
  "utf8_decode [] = Some []"
| "utf8_decode (b0 # bs) =
     (if b0 < 0x80 then map_option ((#) (unat b0)) (utf8_decode bs)
      else if 0xC0 \<le> b0 \<and> b0 < 0xE0 then
        (case bs of
           b1 # r \<Rightarrow>
             (let n = (unat b0 - 0xC0) * 0x40 + (unat b1 - 0x80)
              in if cont_byte b1 \<and> 0x80 \<le> n then map_option ((#) n) (utf8_decode r) else None)
         | _ \<Rightarrow> None)
      else if 0xE0 \<le> b0 \<and> b0 < 0xF0 then
        (case bs of
           b1 # b2 # r \<Rightarrow>
             (let n = (unat b0 - 0xE0) * 0x1000 + (unat b1 - 0x80) * 0x40 + (unat b2 - 0x80)
              in if cont_byte b1 \<and> cont_byte b2 \<and> 0x800 \<le> n \<and> scalar n
                 then map_option ((#) n) (utf8_decode r) else None)
         | _ \<Rightarrow> None)
      else if 0xF0 \<le> b0 \<and> b0 < 0xF8 then
        (case bs of
           b1 # b2 # b3 # r \<Rightarrow>
             (let n = (unat b0 - 0xF0) * 0x40000 + (unat b1 - 0x80) * 0x1000
                      + (unat b2 - 0x80) * 0x40 + (unat b3 - 0x80)
              in if cont_byte b1 \<and> cont_byte b2 \<and> cont_byte b3 \<and> 0x10000 \<le> n \<and> scalar n
                 then map_option ((#) n) (utf8_decode r) else None)
         | _ \<Rightarrow> None)
      else None)"

definition utf16 :: "nat \<Rightarrow> jsstring" where
  "utf16 n =
     (if n < 0x10000 then [of_nat n]
      else [of_nat (0xD800 + (n - 0x10000) div 0x400), of_nat (0xDC00 + (n - 0x10000) mod 0x400)])"

definition fromBase64 :: "jsstring \<Rightarrow> jsstring option" where
  "fromBase64 t =
     (case base64_decode t of
        None \<Rightarrow> None
      | Some bytes \<Rightarrow> map_option (\<lambda>ns. concat (map utf16 ns)) (utf8_decode bytes))"

text \<open>
  A well-formed string: every surrogate is half of a pair (\<open>isWellFormed\<close> of
  ECMAScript).
\<close>

fun wellFormed :: "jsstring \<Rightarrow> bool" where
  "wellFormed [] = True"
| "wellFormed [c] = (\<not> isHigh c \<and> \<not> isLow c)"
| "wellFormed (c # d # cs) =
     (if isHigh c then isLow d \<and> wellFormed cs else \<not> isLow c \<and> wellFormed (d # cs))"

section \<open>The data model\<close>

record ProjectFile =
  file_id :: jsstring
  name :: jsstring
  language :: jsstring
  content :: jsstring

datatype role = User | Model

record Message =
  role :: role
  cleanText :: jsstring

datatype tab = Chat | Preview

text \<open>
  The state of \<open>App\<close>. \<open>alerts\<close> is the list of the messages shown by \<open>alert\<close>, in
  order; the time stamp of a message is left out.
\<close>

record app_state =
  activeTab :: tab
  messages :: "Message list"
  inputText :: jsstring
  isGenerating :: bool
  projectFiles :: "ProjectFile list"
  activeFileId :: "jsstring option"
  showSettings :: bool
  githubToken :: jsstring
  repoName :: jsstring
  isPushing :: bool
  alerts :: "jsstring list"

section \<open>The response parser\<close>

text \<open>
  One match of
  \<^verbatim>\<open>/\[FILE:\s*([\w\.\/\-]+)\]\s*[\n\r]*```(\w+)?\s*[\n\r]([\s\S]*?)```/gi\<close>:
  the matched text and the three groups; the second group is undefined when the fence
  has no language tag.
\<close>

record fmatch =
  m0 :: jsstring
  m1 :: jsstring
  m2 :: "jsstring option"
  m3 :: jsstring

definition fence :: jsstring where
  "fence = [0x60, 0x60, 0x60]"

text \<open>
  The pattern from the end of the language tag on. \<open>s\<close> is the input at the start of
  the match, \<open>nm\<close> and \<open>lang\<close> are the first two groups.
\<close>

definition fileRegex_body ::
  "jsstring \<Rightarrow> jsstring \<Rightarrow> jsstring option \<Rightarrow> (fmatch \<times> jsstring) cont" where
  "fileRegex_body s nm lang =
     star_greedy isSpace (one isNL (\<lambda>s10.
       star_lazy anyCh (\<lambda>s11.
         lit fence (\<lambda>s12.
           Some (\<lparr>m0 = consumed s s12, m1 = nm, m2 = lang, m3 = consumed s10 s11\<rparr>, s12)) s11) s10))"

definition fileRegex_at :: "(fmatch \<times> jsstring) cont" where
  "fileRegex_at s =
     lit (str ''[FILE:'') (star_greedy isSpace (\<lambda>s2.
       plus_greedy isNameCh (\<lambda>s3.
         lit (str '']'') (star_greedy isSpace (star_greedy isNL (lit fence (\<lambda>s7.
           (case plus_greedy isWord (\<lambda>s8. fileRegex_body s (consumed s2 s3) (Some (consumed s7 s8)) s8) s7 of
              Some r \<Rightarrow> Some r
            | None \<Rightarrow> fileRegex_body s (consumed s2 s3) None s7))))) s3) s2)) s"

text \<open>
  \<open>text.matchAll(regex)\<close>: the matches from left to right, each search starting where
  the match before ended. \<open>skip\<close> counts the characters of the current position that
  the last match still covers. A match of this pattern is never empty, and there is
  none at the end of the input.
\<close>

fun matchAllFrom :: "nat \<Rightarrow> jsstring \<Rightarrow> fmatch list" where
  "matchAllFrom skip [] = []"
| "matchAllFrom skip (c # cs) =
     (if 0 < skip then matchAllFrom (skip - 1) cs
      else (case fileRegex_at (c # cs) of
              None \<Rightarrow> matchAllFrom 0 cs
            | Some (m, rest) \<Rightarrow> m # matchAllFrom (length (m0 m) - 1) cs))"

definition matchAll :: "jsstring \<Rightarrow> fmatch list" where
  "matchAll text = matchAllFrom 0 text"

text \<open>The notice that replaces a file block; the folder sign is U+1F4C1.\<close>

definition notice :: "jsstring \<Rightarrow> jsstring" where
  "notice nm = str [CHR 0x0A, CHR 0x0A] @ str ''> '' @ [0xD83D, 0xDCC1] @ str '' **File Updated: `''
     @ nm @ str ''`**'' @ str [CHR 0x0A]"

text \<open>
  \<open>extractFiles\<close>. The identifiers come from \<open>Math.random\<close>: \<open>rnd i\<close> is the
  identifier drawn for the \<open>i\<close>-th match.
\<close>

definition mkFile :: "(nat \<Rightarrow> jsstring) \<Rightarrow> nat \<times> fmatch \<Rightarrow> ProjectFile" where
  "mkFile rnd im =
     \<lparr>file_id = rnd (fst im),
      name = trim (m1 (snd im)),
      language = trim (case m2 (snd im) of Some l \<Rightarrow> l | None \<Rightarrow> str ''text''),
      content = trim (m3 (snd im))\<rparr>"

definition extractFiles :: "(nat \<Rightarrow> jsstring) \<Rightarrow> jsstring \<Rightarrow> ProjectFile list \<times> jsstring" where
  "extractFiles rnd text =
     (let matches = matchAll text
      in (map (mkFile rnd) (zip [0..<length matches] matches),
          foldl (\<lambda>clean m. replaceFirst clean (m0 m) (notice (m1 m))) text matches))"

section \<open>The file-list merge\<close>

text \<open>
  \<open>findIndex\<close> answers \<open>-1\<close> when no element satisfies the predicate: \<open>None\<close> here.
  \<open>toLowerCase\<close> is the parameter \<open>lc\<close> of the merge. The update assigns the
  \<open>content\<close> field of the entry found, an object the copied array shares with the old
  one; the model returns the list after the batch.
\<close>

fun findIndex :: "('a \<Rightarrow> bool) \<Rightarrow> 'a list \<Rightarrow> nat option" where
  "findIndex P [] = None"
| "findIndex P (x # xs) = (if P x then Some 0 else map_option Suc (findIndex P xs))"

definition upsert :: "(jsstring \<Rightarrow> jsstring) \<Rightarrow> ProjectFile list \<Rightarrow> ProjectFile \<Rightarrow> ProjectFile list" where
  "upsert lc updated nf =
     (case findIndex (\<lambda>f. lc (name f) = lc (name nf)) updated of
        Some idx \<Rightarrow> updated[idx := (updated ! idx)\<lparr>content := content nf\<rparr>]
      | None \<Rightarrow> updated @ [nf])"

definition mergeFiles :: "(jsstring \<Rightarrow> jsstring) \<Rightarrow> ProjectFile list \<Rightarrow> ProjectFile list \<Rightarrow> ProjectFile list" where
  "mergeFiles lc prev newFiles = foldl (upsert lc) prev newFiles"

text \<open>\<open>toLowerCase\<close> on ASCII text, as the names the parser extracts are.\<close>

definition asciiLower :: "jsstring \<Rightarrow> jsstring" where
  "asciiLower s = map (\<lambda>c. if 0x41 \<le> c \<and> c \<le> 0x5A then c + 0x20 else c) s"

section \<open>Sending a message\<close>

text \<open>
  \<open>handleSendMessage\<close>. The call of the model is the parameter \<open>generate\<close>: it answers
  the response text (the empty string when the response has none), or the message of
  the error it throws.
\<close>

definition handleSendMessage ::
  "(jsstring \<Rightarrow> jsstring) \<Rightarrow> (nat \<Rightarrow> jsstring) \<Rightarrow> (jsstring \<Rightarrow> jsstring + jsstring) \<Rightarrow> app_state \<Rightarrow> app_state" where
  "handleSendMessage lc rnd generate st =
     (if trim (inputText st) = [] \<or> isGenerating st then st
      else
        let prompt = inputText st;
            st1 = st\<lparr>messages := messages st @ [\<lparr>role = User, cleanText = prompt\<rparr>],
                     inputText := [], isGenerating := True\<rparr>
        in (case generate prompt of
              Inl msg \<Rightarrow>
                st1\<lparr>messages := messages st1 @
                       [\<lparr>role = Model, cleanText = [0xD83D, 0xDED1] @ str '' **Error:** '' @ msg\<rparr>],
                     isGenerating := False\<rparr>
            | Inr text \<Rightarrow>
                (case extractFiles rnd text of
                   (newFiles, clean) \<Rightarrow>
                     let st2 = (if newFiles \<noteq> []
                                then st1\<lparr>projectFiles := mergeFiles lc (projectFiles st1) newFiles,
                                         activeFileId := Some (file_id (hd newFiles))\<rparr>
                                else st1)
                     in st2\<lparr>messages := messages st2 @ [\<lparr>role = Model, cleanText = clean\<rparr>],
                            isGenerating := False\<rparr>)))"

text \<open>What the code pane shows: the content of the file the active identifier finds.\<close>

definition activeFile :: "app_state \<Rightarrow> ProjectFile option" where
  "activeFile st =
     (case activeFileId st of
        None \<Rightarrow> None
      | Some a \<Rightarrow> find (\<lambda>f. file_id f = a) (projectFiles st))"

section \<open>The repository synchronizer\<close>

text \<open>
  A request of \<open>syncToGithub\<close>: the lookup (a GET) and the write (a PUT), with the URL,
  the Authorization header and, for the write, the fields of the JSON body. \<open>sha\<close> is
  left out of the body when it is undefined: \<open>None\<close>. The headers that are the same
  for every request are left out.
\<close>

record put_body =
  commit_message :: jsstring
  body_content :: jsstring
  body_sha :: "jsstring option"

datatype request = Get jsstring jsstring | Put jsstring jsstring put_body

text \<open>
  What \<open>fetch\<close> answers: it throws (with a message), or gives a response with its
  \<open>ok\<close> flag and what \<open>json()\<close> gives: an exception (also for a body that is not an
  object), or an object of which the program reads the fields \<open>sha\<close> and \<open>message\<close>,
  strings when present.
\<close>

datatype json_result = JsonThrows jsstring | JsonObject "jsstring option" "jsstring option"

datatype fetch_result = Rejected jsstring | Response bool json_result

text \<open>
  The network is a state machine: \<open>fetch n req\<close> is the answer to \<open>req\<close> in the
  state \<open>n\<close>, and the state after it.
\<close>

type_synonym 'n network = "'n \<Rightarrow> request \<Rightarrow> fetch_result \<times> 'n"

definition fileUrl :: "jsstring \<Rightarrow> ProjectFile \<Rightarrow> jsstring" where
  "fileUrl repo file = str ''https://api.github.com/repos/'' @ repo @ str ''/contents/'' @ name file"

definition authHeader :: "jsstring \<Rightarrow> jsstring" where
  "authHeader token = str ''token '' @ token"

text \<open>
  The lookup: \<open>sha\<close> stays \<open>null\<close> unless the response is ok and its object has the
  field; whatever is thrown is caught and dropped.
\<close>

definition lookupSha :: "fetch_result \<Rightarrow> jsstring option" where
  "lookupSha r =
     (case r of
        Response True (JsonObject sha msg) \<Rightarrow> sha
      | _ \<Rightarrow> None)"

text \<open>\<open>sha || undefined\<close>: an empty string is left out like \<open>null\<close>.\<close>

definition putBody :: "platform \<Rightarrow> ProjectFile \<Rightarrow> jsstring option \<Rightarrow> put_body" where
  "putBody pf file sha =
     \<lparr>commit_message = str ''Update via AI Studio: '' @ name file,
      body_content = toBase64 pf (content file),
      body_sha = (case sha of None \<Rightarrow> None | Some h \<Rightarrow> if h = [] then None else Some h)\<rparr>"

text \<open>
  What the write's answer makes of the file: \<open>Inr ()\<close> to go on, or the message of the
  error that is thrown.
\<close>

definition writeOutcome :: "ProjectFile \<Rightarrow> fetch_result \<Rightarrow> jsstring + unit" where
  "writeOutcome file r =
     (case r of
        Rejected e \<Rightarrow> Inl e
      | Response True j \<Rightarrow> Inr ()
      | Response False (JsonThrows e) \<Rightarrow> Inl e
      | Response False (JsonObject sha msg) \<Rightarrow>
          Inl (case msg of
                 None \<Rightarrow> str ''Gagal push '' @ name file
               | Some m \<Rightarrow> if m = [] then str ''Gagal push '' @ name file else m))"

text \<open>The body of the loop: the requests for one file, with the requests it issued.\<close>

definition pushFile ::
  "platform \<Rightarrow> 'n network \<Rightarrow> jsstring \<Rightarrow> jsstring \<Rightarrow> ProjectFile \<Rightarrow> 'n
     \<Rightarrow> (jsstring + unit) \<times> 'n \<times> request list" where
  "pushFile pf fetch token repo file n =
     (let url = fileUrl repo file;
          check = fetch n (Get url (authHeader token));
          sha = lookupSha (fst check);
          put = Put url (authHeader token) (putBody pf file sha);
          push = fetch (snd check) put
      in (writeOutcome file (fst push), snd push, [Get url (authHeader token), put]))"

fun syncLoop ::
  "platform \<Rightarrow> 'n network \<Rightarrow> jsstring \<Rightarrow> jsstring \<Rightarrow> ProjectFile list \<Rightarrow> 'n
     \<Rightarrow> (jsstring + unit) \<times> 'n \<times> request list" where
  "syncLoop pf fetch token repo [] n = (Inr (), n, [])"
| "syncLoop pf fetch token repo (file # files) n =
     (case pushFile pf fetch token repo file n of
        (Inl e, n1, t1) \<Rightarrow> (Inl e, n1, t1)
      | (Inr u, n1, t1) \<Rightarrow>
          (case syncLoop pf fetch token repo files n1 of
             (r, n2, t2) \<Rightarrow> (r, n2, t1 @ t2)))"

text \<open>The two alerts; the cross is U+274C and the check mark U+2705.\<close>

definition errorAlert :: "jsstring \<Rightarrow> jsstring" where
  "errorAlert e = [0x274C] @ str '' GitHub Error: '' @ e"

definition successAlert :: jsstring where
  "successAlert = [0x2705] @ str '' Berhasil! Semua file telah disinkronkan ke GitHub.''"

text \<open>
  \<open>syncToGithub\<close>: the state of the application after it, the state of the network
  after it, and the requests it issued, in order.
\<close>

definition syncToGithub ::
  "platform \<Rightarrow> 'n network \<Rightarrow> app_state \<Rightarrow> 'n \<Rightarrow> app_state \<times> 'n \<times> request list" where
  "syncToGithub pf fetch st n =
     (if githubToken st = [] \<or> repoName st = [] then (st\<lparr>showSettings := True\<rparr>, n, [])
      else
        let st1 = st\<lparr>isPushing := True\<rparr>
        in (case (if projectFiles st1 = []
                  then (Inl (str ''Belum ada file untuk dikirim.''), n, [])
                  else syncLoop pf fetch (githubToken st1) (repoName st1) (projectFiles st1) n) of
              (Inr u, n', t) \<Rightarrow>
                (st1\<lparr>alerts := alerts st1 @ [successAlert], isPushing := False\<rparr>, n', t)
            | (Inl e, n', t) \<Rightarrow>
                (st1\<lparr>alerts := alerts st1 @ [errorAlert e], isPushing := False\<rparr>, n', t)))"

text \<open>
  A network that answers from a tape, one answer per request, for running the
  synchronizer on; when the tape is used up the request fails.
\<close>

definition tape :: "(fetch_result list) network" where
  "tape n req = (case n of [] \<Rightarrow> (Rejected (str ''Failed to fetch''), []) | r # rs \<Rightarrow> (r, rs))"

text \<open>For reading a list of requests: whether a request is a write, and its URL.\<close>

fun isPut :: "request \<Rightarrow> bool" where
  "isPut (Get url auth) = False"
| "isPut (Put url auth body) = True"

fun reqUrl :: "request \<Rightarrow> jsstring" where
  "reqUrl (Get url auth) = url"
| "reqUrl (Put url auth body) = url"

text \<open>
  A working set, a state and two networks to run the synchronizer on: \<open>lookupsDown\<close>
  fails every lookup and accepts every write; \<open>brokenPlatform\<close> is a platform whose
  \<open>btoa\<close> throws.
\<close>

definition ex_fileA :: ProjectFile where
  "ex_fileA = \<lparr>file_id = str ''f1'', name = str ''a.txt'', language = str ''text'', content = str ''x''\<rparr>"

definition ex_fileB :: ProjectFile where
  "ex_fileB = \<lparr>file_id = str ''f2'', name = str ''b.txt'', language = str ''text'', content = str ''y''\<rparr>"

definition ex_fileC :: ProjectFile where
  "ex_fileC = \<lparr>file_id = str ''f3'', name = str ''c.txt'', language = str ''text'', content = str ''z''\<rparr>"

definition ex_state :: "ProjectFile list \<Rightarrow> app_state" where
  "ex_state files =
     \<lparr>activeTab = Preview, messages = [], inputText = [], isGenerating = False,
      projectFiles = files, activeFileId = None, showSettings = False,
      githubToken = str ''tok'', repoName = str ''u/r'', isPushing = False, alerts = []\<rparr>"

definition lookupsDown :: "nat network" where
  "lookupsDown n req =
     (if isPut req then (Response True (JsonObject None None), Suc n)
      else (Rejected (str ''Failed to fetch''), Suc n))"

definition brokenPlatform :: platform where
  "brokenPlatform =
     \<lparr>textEncode = (\<lambda>s. Inr (utf8_encode s)), btoa = (\<lambda>s. Inl (str ''InvalidCharacterError''))\<rparr>"

section \<open>Preview assembly\<close>

text \<open>
  The body of the HTML file is the first group of
  \<^verbatim>\<open>/<body[^>]*>([\s\S]*)<\/body>/i\<close>, matched with \<open>match\<close>: the leftmost
  position that has a match, and there the greedy star of the group.
\<close>

definition bodyRegex_at :: "jsstring cont" where
  "bodyRegex_at =
     lit (str ''<body'') (star_greedy notGt (lit (str ''>'') (\<lambda>s3.
       star_greedy anyCh (\<lambda>s4. lit (str ''</body>'') (\<lambda>s5. Some (consumed s3 s4)) s4) s3)))"

definition bodyContent :: "jsstring \<Rightarrow> jsstring" where
  "bodyContent html = (case regexSearch bodyRegex_at html of Some b \<Rightarrow> b | None \<Rightarrow> html)"

definition endsWith :: "jsstring \<Rightarrow> jsstring \<Rightarrow> bool" where
  "endsWith s suffix = startsWith (rev s) (rev suffix)"

fun join :: "jsstring \<Rightarrow> jsstring list \<Rightarrow> jsstring" where
  "join sep [] = []"
| "join sep [x] = x"
| "join sep (x # y # ys) = x @ sep @ join sep (y # ys)"

definition previewDoc :: "(jsstring \<Rightarrow> jsstring) \<Rightarrow> ProjectFile list \<Rightarrow> jsstring option" where
  \<open>previewDoc lc files =
     (case find (\<lambda>f. endsWith (lc (name f)) (str ''.html'')) files of
        None \<Rightarrow> None
      | Some htmlFile \<Rightarrow>
          let css = join [0x0A] (map (\<lambda>f. str ''<style>'' @ content f @ str ''</style>'')
                      (filter (\<lambda>f. endsWith (lc (name f)) (str ''.css'')) files));
              js = join [0x0A] (map (\<lambda>f. str ''<script type="module">'' @ content f @ str ''</script>'')
                      (filter (\<lambda>f. endsWith (lc (name f)) (str ''.js'')) files))
          in Some (str ''<!DOCTYPE html><html><head><meta charset="UTF-8">''
               @ str ''<meta name="viewport" content="width=device-width, initial-scale=1.0">''
               @ str ''<script src="https://cdn.tailwindcss.com"></script>'' @ css
               @ str ''</head><body>'' @ bodyContent (content htmlFile) @ js @ str ''</body></html>''))\<close>

text \<open>
  For stating where the tags are: \<open>ci_prefix p s\<close> says that \<open>s\<close> starts with
  \<open>p\<close>, letters compared without their case.
\<close>

fun ci_prefix :: "jsstring \<Rightarrow> jsstring \<Rightarrow> bool" where
  "ci_prefix [] s = True"
| "ci_prefix (p # ps) [] = False"
| "ci_prefix (p # ps) (c # cs) = (canon c = canon p \<and> ci_prefix ps cs)"

text \<open>\<open>ci_occurs p s\<close>: some position of \<open>s\<close> starts with \<open>p\<close>, case ignored.\<close>

fun ci_occurs :: "jsstring \<Rightarrow> jsstring \<Rightarrow> bool" where
  "ci_occurs p [] = ci_prefix p []"
| "ci_occurs p (c # cs) = (ci_prefix p (c # cs) \<or> ci_occurs p cs)"

section \<open>Documents made of file blocks\<close>












section \<open>Properties of the file-list merge\<close>

lemma findIndex_None: "findIndex P xs = None \<longleftrightarrow> (\<forall>x\<in>set xs. \<not> P x)"
  by (induction xs) auto

lemma findIndex_Some:
  "findIndex P xs = Some i \<Longrightarrow> i < length xs \<and> P (xs ! i) \<and> (\<forall>j<i. \<not> P (xs ! j))"
proof (induction xs arbitrary: i)
  case Nil
  then show ?case by simp
next
  case (Cons x xs)
  show ?case
  proof (cases "P x")
    case True
    with Cons.prems show ?thesis by simp
  next
    case False
    with Cons.prems obtain j where j: "findIndex P xs = Some j" "i = Suc j"
      by auto
    from Cons.IH [OF j(1)] False j(2) show ?thesis
      by (auto simp: less_Suc_eq_0_disj)
  qed
qed

lemma findIndex_distinct:
  assumes "distinct (map key xs)" "i < length xs" "key (xs ! i) = k"
  shows "findIndex (\<lambda>f. key f = k) xs = Some i"
proof (cases "findIndex (\<lambda>f. key f = k) xs")
  case None
  with assms show ?thesis
    by (auto simp: findIndex_None)
next
  case (Some j)
  from findIndex_Some [OF Some] have j: "j < length xs" "key (xs ! j) = k"
    by auto
  from assms(1) have "\<forall>a<length xs. \<forall>b<length xs. a \<noteq> b \<longrightarrow> key (xs ! a) \<noteq> key (xs ! b)"
    by (simp add: distinct_conv_nth)
  with assms(2,3) j have "i = j"
    by blast
  with Some show ?thesis by simp
qed

lemma upsert_match:
  assumes "distinct (map (\<lambda>f. lc (name f)) ws)" "i < length ws"
    "lc (name (ws ! i)) = lc (name nf)"
  shows "upsert lc ws nf = ws[i := (ws ! i)\<lparr>content := content nf\<rparr>]"
  using findIndex_distinct [OF assms] by (simp add: upsert_def)

lemma upsert_no_match:
  assumes "\<forall>f\<in>set ws. lc (name f) \<noteq> lc (name nf)"
  shows "upsert lc ws nf = ws @ [nf]"
proof -
  from assms have "findIndex (\<lambda>f. lc (name f) = lc (name nf)) ws = None"
    by (simp add: findIndex_None)
  then show ?thesis by (simp add: upsert_def)
qed

lemma upsert_keys:
  "map (\<lambda>f. lc (name f)) (upsert lc ws nf) =
     (if lc (name nf) \<in> set (map (\<lambda>f. lc (name f)) ws) then map (\<lambda>f. lc (name f)) ws
      else map (\<lambda>f. lc (name f)) ws @ [lc (name nf)])"
proof (cases "findIndex (\<lambda>f. lc (name f) = lc (name nf)) ws")
  case None
  then have "lc (name nf) \<notin> set (map (\<lambda>f. lc (name f)) ws)"
    by (auto simp: findIndex_None)
  with None show ?thesis
    by (simp add: upsert_def)
next
  case (Some j)
  from findIndex_Some [OF Some] have j: "j < length ws" "lc (name (ws ! j)) = lc (name nf)"
    by auto
  then have "lc (name nf) \<in> set (map (\<lambda>f. lc (name f)) ws)"
    by (metis (mono_tags, lifting) image_eqI list.set_map nth_mem)
  moreover have "map (\<lambda>f. lc (name f)) (ws[j := (ws ! j)\<lparr>content := content nf\<rparr>]) = map (\<lambda>f. lc (name f)) ws"
    by (simp add: map_update list_update_same_conv j(1))
  ultimately show ?thesis using Some by (simp add: upsert_def)
qed

lemma upsert_distinct:
  "distinct (map (\<lambda>f. lc (name f)) ws) \<Longrightarrow> distinct (map (\<lambda>f. lc (name f)) (upsert lc ws nf))"
  by (simp add: upsert_keys)

lemma mergeFiles_distinct:
  "distinct (map (\<lambda>f. lc (name f)) ws) \<Longrightarrow> distinct (map (\<lambda>f. lc (name f)) (mergeFiles lc ws batch))"
  unfolding mergeFiles_def
  by (induction batch arbitrary: ws) (simp_all add: upsert_distinct)

lemma upsert_length: "length ws \<le> length (upsert lc ws nf)"
  by (simp add: upsert_def split: option.splits)

lemma upsert_frame:
  assumes "i < length ws"
  shows "file_id (upsert lc ws nf ! i) = file_id (ws ! i) \<and> name (upsert lc ws nf ! i) = name (ws ! i)
     \<and> language (upsert lc ws nf ! i) = language (ws ! i)"
proof (cases "findIndex (\<lambda>f. lc (name f) = lc (name nf)) ws")
  case None
  with assms show ?thesis by (simp add: upsert_def nth_append)
next
  case (Some j)
  from findIndex_Some [OF Some] have "j < length ws" by simp
  with assms Some show ?thesis
    by (cases "j = i") (simp_all add: upsert_def)
qed

lemma mergeFiles_frame:
  "i < length ws \<Longrightarrow> i < length (mergeFiles lc ws batch) \<and>
     file_id (mergeFiles lc ws batch ! i) = file_id (ws ! i) \<and>
     name (mergeFiles lc ws batch ! i) = name (ws ! i) \<and>
     language (mergeFiles lc ws batch ! i) = language (ws ! i)"
  unfolding mergeFiles_def
proof (induction batch arbitrary: ws)
  case Nil
  then show ?case by simp
next
  case (Cons nf batch)
  from Cons.prems upsert_length [of ws lc nf] have "i < length (upsert lc ws nf)"
    by simp
  from Cons.IH [OF this] upsert_frame [OF Cons.prems, of lc nf] show ?case
    by simp
qed

lemma mergeFiles_snoc: "mergeFiles lc ws (batch @ [nf]) = upsert lc (mergeFiles lc ws batch) nf"
  by (simp add: mergeFiles_def)

lemma mergeFiles_content:
  assumes "distinct (map (\<lambda>f. lc (name f)) ws)" "i < length ws"
  shows "content (mergeFiles lc ws batch ! i) =
     (case find (\<lambda>nf. lc (name nf) = lc (name (ws ! i))) (rev batch) of
        None \<Rightarrow> content (ws ! i) | Some nf \<Rightarrow> content nf)"
proof (induction batch rule: rev_induct)
  case Nil
  show ?case by (simp add: mergeFiles_def)
next
  case (snoc nf batch)
  let ?R = "mergeFiles lc ws batch"
  have d: "distinct (map (\<lambda>f. lc (name f)) ?R)"
    by (rule mergeFiles_distinct [OF assms(1)])
  from mergeFiles_frame [OF assms(2), of lc batch]
  have i: "i < length ?R" and nm: "name (?R ! i) = name (ws ! i)"
    by simp_all
  show ?case
  proof (cases "lc (name nf) = lc (name (ws ! i))")
    case True
    with nm have "lc (name (?R ! i)) = lc (name nf)" by simp
    from upsert_match [OF d i this] i True show ?thesis
      by (simp add: mergeFiles_snoc)
  next
    case False
    have "content (upsert lc ?R nf ! i) = content (?R ! i)"
    proof (cases "findIndex (\<lambda>f. lc (name f) = lc (name nf)) ?R")
      case None
      with i show ?thesis by (simp add: upsert_def nth_append)
    next
      case (Some j)
      from findIndex_Some [OF Some] have "lc (name (?R ! j)) = lc (name nf)" by simp
      with False nm have "j \<noteq> i" by auto
      with Some show ?thesis by (simp add: upsert_def)
    qed
    with False snoc show ?thesis
      by (simp add: mergeFiles_snoc)
  qed
qed

text \<open>
  Claim C1, as the code has it. The merge takes the batch in extraction order, one
  \<open>upsert\<close> per entry. On a working set with no two names equal case-insensitively,
  a batch entry whose name matches an entry case-insensitively overwrites the content of
  that entry in place and nothing else of it: the identifier, the name, the language and
  the position stay. A batch entry with no match is appended at the end. After the
  batch no two names are equal case-insensitively, every entry of the old working set
  is at its position with its identifier, name and language, and its content is that of
  the last batch entry of its name, or its own when the batch has none.
\<close>

theorem mergeFiles_upsert:
  assumes "distinct (map (\<lambda>f. lc (name f)) ws)"
  shows "mergeFiles lc ws [] = ws
     \<and> (\<forall>nf rest. mergeFiles lc ws (nf # rest) = mergeFiles lc (upsert lc ws nf) rest)
     \<and> (\<forall>i nf. i < length ws \<and> lc (name (ws ! i)) = lc (name nf) \<longrightarrow>
           upsert lc ws nf = ws[i := (ws ! i)\<lparr>content := content nf\<rparr>])
     \<and> (\<forall>nf. (\<forall>f\<in>set ws. lc (name f) \<noteq> lc (name nf)) \<longrightarrow> upsert lc ws nf = ws @ [nf])
     \<and> distinct (map (\<lambda>f. lc (name f)) (mergeFiles lc ws batch))
     \<and> (\<forall>i<length ws. i < length (mergeFiles lc ws batch)
           \<and> file_id (mergeFiles lc ws batch ! i) = file_id (ws ! i)
           \<and> name (mergeFiles lc ws batch ! i) = name (ws ! i)
           \<and> language (mergeFiles lc ws batch ! i) = language (ws ! i)
           \<and> content (mergeFiles lc ws batch ! i) =
               (case find (\<lambda>nf. lc (name nf) = lc (name (ws ! i))) (rev batch) of
                  None \<Rightarrow> content (ws ! i) | Some nf \<Rightarrow> content nf))"
proof -
  have a: "mergeFiles lc ws [] = ws"
    and b: "\<forall>nf rest. mergeFiles lc ws (nf # rest) = mergeFiles lc (upsert lc ws nf) rest"
    by (simp_all add: mergeFiles_def)
  have c: "\<forall>i nf. i < length ws \<and> lc (name (ws ! i)) = lc (name nf) \<longrightarrow>
           upsert lc ws nf = ws[i := (ws ! i)\<lparr>content := content nf\<rparr>]"
    using upsert_match [OF assms] by blast
  have d: "\<forall>nf. (\<forall>f\<in>set ws. lc (name f) \<noteq> lc (name nf)) \<longrightarrow> upsert lc ws nf = ws @ [nf]"
    using upsert_no_match by blast
  have e: "distinct (map (\<lambda>f. lc (name f)) (mergeFiles lc ws batch))"
    by (rule mergeFiles_distinct [OF assms])
  have f: "\<forall>i<length ws. i < length (mergeFiles lc ws batch)
           \<and> file_id (mergeFiles lc ws batch ! i) = file_id (ws ! i)
           \<and> name (mergeFiles lc ws batch ! i) = name (ws ! i)
           \<and> language (mergeFiles lc ws batch ! i) = language (ws ! i)
           \<and> content (mergeFiles lc ws batch ! i) =
               (case find (\<lambda>nf. lc (name nf) = lc (name (ws ! i))) (rev batch) of
                  None \<Rightarrow> content (ws ! i) | Some nf \<Rightarrow> content nf)"
    using mergeFiles_frame [of _ ws lc batch] mergeFiles_content [OF assms, of _ batch]
    by blast
  from a b c d e f show ?thesis by blast
qed

text \<open>The theorem at a working set of one file and a batch of three.\<close>

theorem mergeFiles_upsert_witness:
  "distinct (map (\<lambda>f. asciiLower (name f))
       [\<lparr>file_id = str ''a1'', name = str ''index.html'', language = str ''html'', content = str ''old''\<rparr>])
   \<and> mergeFiles asciiLower
       [\<lparr>file_id = str ''a1'', name = str ''index.html'', language = str ''html'', content = str ''old''\<rparr>]
       [\<lparr>file_id = str ''b2'', name = str ''INDEX.HTML'', language = str ''xml'', content = str ''new''\<rparr>,
        \<lparr>file_id = str ''c3'', name = str ''app.js'', language = str ''js'', content = str ''run()''\<rparr>,
        \<lparr>file_id = str ''d4'', name = str ''App.js'', language = str ''ts'', content = str ''go()''\<rparr>]
     = [\<lparr>file_id = str ''a1'', name = str ''index.html'', language = str ''html'', content = str ''new''\<rparr>,
        \<lparr>file_id = str ''c3'', name = str ''app.js'', language = str ''js'', content = str ''go()''\<rparr>]"
proof -
  have d: "distinct (map (\<lambda>f. asciiLower (name f))
       [\<lparr>file_id = str ''a1'', name = str ''index.html'', language = str ''html'', content = str ''old''\<rparr>])"
    by simp
  from mergeFiles_upsert [OF d,
      of "[\<lparr>file_id = str ''b2'', name = str ''INDEX.HTML'', language = str ''xml'', content = str ''new''\<rparr>,
        \<lparr>file_id = str ''c3'', name = str ''app.js'', language = str ''js'', content = str ''run()''\<rparr>,
        \<lparr>file_id = str ''d4'', name = str ''App.js'', language = str ''ts'', content = str ''go()''\<rparr>]"]
  show ?thesis
    by (simp add: mergeFiles_def upsert_def asciiLower_def str_def)
qed

text \<open>
  Claim C1 as the specification words it has the language overwritten too. The code
  assigns the content only: the merged entry keeps the language it had.
\<close>

theorem mergeFiles_language_counterexample:
  "asciiLower (name \<lparr>file_id = str ''a1'', name = str ''index.html'', language = str ''html'', content = str ''old''\<rparr>)
     = asciiLower (name \<lparr>file_id = str ''b2'', name = str ''INDEX.HTML'', language = str ''xml'', content = str ''new''\<rparr>)
   \<and> mergeFiles asciiLower
       [\<lparr>file_id = str ''a1'', name = str ''index.html'', language = str ''html'', content = str ''old''\<rparr>]
       [\<lparr>file_id = str ''b2'', name = str ''INDEX.HTML'', language = str ''xml'', content = str ''new''\<rparr>]
     = [\<lparr>file_id = str ''a1'', name = str ''index.html'', language = str ''html'', content = str ''new''\<rparr>]
   \<and> language (mergeFiles asciiLower
       [\<lparr>file_id = str ''a1'', name = str ''index.html'', language = str ''html'', content = str ''old''\<rparr>]
       [\<lparr>file_id = str ''b2'', name = str ''INDEX.HTML'', language = str ''xml'', content = str ''new''\<rparr>] ! 0)
     \<noteq> language \<lparr>file_id = str ''b2'', name = str ''INDEX.HTML'', language = str ''xml'', content = str ''new''\<rparr>"
  by (simp add: mergeFiles_def upsert_def asciiLower_def str_def)

text \<open>
  Claim C5: after a parse that extracts a file, the active identifier designates the
  working-set entry that holds the first file of the batch, also when that file merged
  into an entry that was there. Here the response redeclares \<open>index.html\<close>: the
  entry keeps its identifier \<open>a1\<close>, the active identifier becomes the fresh \<open>b2\<close>
  of the batch, and no entry of the working set has it.
\<close>

theorem handleSendMessage_active_merged:
  "handleSendMessage asciiLower (\<lambda>i. str ''b2'')
      (\<lambda>prompt. Inr (str ''[FILE: INDEX.html]'' @ [0x0A] @ str ''```html'' @ [0x0A] @ str ''new'' @ [0x0A] @ str ''```''))
      \<lparr>activeTab = Chat, messages = [], inputText = str ''go'', isGenerating = False,
       projectFiles = [\<lparr>file_id = str ''a1'', name = str ''index.html'', language = str ''html'', content = str ''old''\<rparr>],
       activeFileId = None, showSettings = False, githubToken = [], repoName = [], isPushing = False, alerts = []\<rparr>
    = \<lparr>activeTab = Chat,
       messages = [\<lparr>role = User, cleanText = str ''go''\<rparr>,
                   \<lparr>role = Model, cleanText = notice (str ''INDEX.html'')\<rparr>],
       inputText = [], isGenerating = False,
       projectFiles = [\<lparr>file_id = str ''a1'', name = str ''index.html'', language = str ''html'', content = str ''new''\<rparr>],
       activeFileId = Some (str ''b2''), showSettings = False, githubToken = [], repoName = [], isPushing = False, alerts = []\<rparr>
   \<and> activeFile (handleSendMessage asciiLower (\<lambda>i. str ''b2'')
      (\<lambda>prompt. Inr (str ''[FILE: INDEX.html]'' @ [0x0A] @ str ''```html'' @ [0x0A] @ str ''new'' @ [0x0A] @ str ''```''))
      \<lparr>activeTab = Chat, messages = [], inputText = str ''go'', isGenerating = False,
       projectFiles = [\<lparr>file_id = str ''a1'', name = str ''index.html'', language = str ''html'', content = str ''old''\<rparr>],
       activeFileId = None, showSettings = False, githubToken = [], repoName = [], isPushing = False, alerts = []\<rparr>)
    = None"
  by code_simp

section \<open>Properties of the matchers and of the preview body\<close>

lemma lit_ci: "lit p k s = (if ci_prefix p s then k (drop (length p) s) else None)"
  by (induction p k s rule: lit.induct) auto


lemma regexSearch_skip:
  "\<forall>i<length pre. m (drop i (pre @ t)) = None \<Longrightarrow> regexSearch m (pre @ t) = regexSearch m t"
proof (induction pre)
  case Nil
  then show ?case by simp
next
  case (Cons c pre)
  from Cons.prems have "m (drop 0 ((c # pre) @ t)) = None"
    by blast
  then have h: "m (c # pre @ t) = None" by simp
  have "\<forall>i<length pre. m (drop i (pre @ t)) = None"
  proof (intro allI impI)
    fix i assume "i < length pre"
    then have "Suc i < length (c # pre)" by simp
    with Cons.prems have "m (drop (Suc i) ((c # pre) @ t)) = None" by blast
    then show "m (drop i (pre @ t)) = None" by simp
  qed
  with Cons.IH h show ?case by simp
qed

lemma regexSearch_here: "m s = Some r \<Longrightarrow> regexSearch m s = Some r"
  by (cases s) simp_all

lemma regexSearch_None:
  "\<forall>i. m (drop i s) = None \<Longrightarrow> regexSearch m s = None"
proof (induction s)
  case Nil
  from Nil [rule_format, of 0] show ?case by simp
next
  case (Cons c s)
  from Cons.prems [rule_format, of 0] have h: "m (c # s) = None" by simp
  have "\<forall>i. m (drop i s) = None"
  proof
    fix i from Cons.prems [rule_format, of "Suc i"] show "m (drop i s) = None" by simp
  qed
  with Cons.IH h show ?case by simp
qed

lemma star_greedy_run:
  "\<forall>x\<in>set xs. P x \<and> (\<forall>t. k (x # t) = None) \<Longrightarrow> star_greedy P k (xs @ t) = star_greedy P k t"
  by (induction xs) (auto split: option.splits)

lemma lit_append: "map canon x = map canon p \<Longrightarrow> lit p k (x @ t) = k t"
proof (induction p arbitrary: x)
  case Nil
  then show ?case by simp
next
  case (Cons a p)
  then obtain y ys where "x = y # ys" by (cases x) auto
  with Cons show ?case by simp
qed

lemma star_greedy_Some:
  "star_greedy P k s = Some r \<Longrightarrow> \<exists>j\<le>length s. k (drop j s) = Some r"
proof (induction s)
  case Nil
  then show ?case by simp
next
  case (Cons c s)
  show ?case
  proof (cases "P c \<and> star_greedy P k s \<noteq> None")
    case True
    with Cons.prems have "star_greedy P k s = Some r"
      by (auto split: option.splits)
    from Cons.IH [OF this] obtain j where "j \<le> length s" "k (drop j s) = Some r"
      by blast
    then have "Suc j \<le> length (c # s) \<and> k (drop (Suc j) (c # s)) = Some r"
      by simp
    then show ?thesis by blast
  next
    case False
    with Cons.prems have "k (c # s) = Some r"
      by (auto split: option.splits if_splits)
    then have "0 \<le> length (c # s) \<and> k (drop 0 (c # s)) = Some r"
      by simp
    then show ?thesis by blast
  qed
qed

lemma star_greedy_last:
  "n \<le> length s \<Longrightarrow> k (drop n s) = Some r \<Longrightarrow> \<forall>j. n < j \<and> j \<le> length s \<longrightarrow> k (drop j s) = None
    \<Longrightarrow> star_greedy anyCh k s = Some r"
  unfolding anyCh_def
proof (induction s arbitrary: n)
  case Nil
  then show ?case by simp
next
  case (Cons c s)
  show ?case
  proof (cases n)
    case 0
    have "star_greedy (\<lambda>c. True) k s = None"
    proof (cases "star_greedy (\<lambda>c. True) k s")
      case None
      then show ?thesis .
    next
      case (Some r')
      from star_greedy_Some [OF Some] obtain j where j: "j \<le> length s" "k (drop j s) = Some r'"
        by blast
      from Cons.prems(3) [rule_format, of "Suc j"] 0 j(1) have "k (drop j s) = None"
        by simp
      with j(2) show ?thesis by simp
    qed
    with Cons.prems 0 show ?thesis by simp
  next
    case (Suc n')
    have "\<forall>j. n' < j \<and> j \<le> length s \<longrightarrow> k (drop j s) = None"
    proof (intro allI impI)
      fix j assume "n' < j \<and> j \<le> length s"
      with Cons.prems(3) [rule_format, of "Suc j"] Suc show "k (drop j s) = None"
        by simp
    qed
    with Cons.IH [of n'] Cons.prems Suc have "star_greedy (\<lambda>c. True) k s = Some r"
      by simp
    then show ?thesis by simp
  qed
qed

lemma canon_gt: "canon c = canon 0x3E \<longleftrightarrow> c = 0x3E"
  by (auto simp: canon_def diff_eq_eq)

lemma bodyRegex_at_match:
  assumes opn: "map canon opn = map canon (str ''<body'')"
    and attrs: "0x3E \<notin> set attrs"
    and cls: "map canon cls = map canon (str ''</body>'')"
    and last: "\<forall>j. 0 < j \<longrightarrow> \<not> ci_prefix (str ''</body>'') (drop j (cls @ post))"
  shows "bodyRegex_at (opn @ attrs @ [0x3E] @ body @ cls @ post) = Some body"
proof -
  let ?s3 = "body @ cls @ post"
  let ?k4 = "\<lambda>s4. lit (str ''</body>'') (\<lambda>s5. Some (consumed ?s3 s4)) s4"
  let ?k2 = "lit (str ''>'') (\<lambda>s3. star_greedy anyCh (\<lambda>s4. lit (str ''</body>'') (\<lambda>s5. Some (consumed s3 s4)) s4) s3)"
  have here: "?k4 (drop (length body) ?s3) = Some body"
    by (simp add: lit_append [OF cls] consumed_def)
  have later: "\<forall>j. length body < j \<and> j \<le> length ?s3 \<longrightarrow> ?k4 (drop j ?s3) = None"
  proof (intro allI impI)
    fix j assume j: "length body < j \<and> j \<le> length ?s3"
    then have "drop j ?s3 = drop (j - length body) (cls @ post)"
      by simp
    moreover from j have "0 < j - length body"
      by simp
    with last have "\<not> ci_prefix (str ''</body>'') (drop (j - length body) (cls @ post))"
      by blast
    ultimately show "?k4 (drop j ?s3) = None"
      by (simp add: lit_ci)
  qed
  have s3: "star_greedy anyCh ?k4 ?s3 = Some body"
    by (rule star_greedy_last [OF _ here later]) simp
  have k2: "?k2 (0x3E # ?s3) = Some body"
    using s3 by (simp add: str_def)
  have run: "\<forall>x\<in>set attrs. notGt x \<and> (\<forall>t. ?k2 (x # t) = None)"
    using attrs by (auto simp: notGt_def str_def canon_gt)
  have "star_greedy notGt ?k2 (attrs @ 0x3E # ?s3) = star_greedy notGt ?k2 (0x3E # ?s3)"
    by (rule star_greedy_run [OF run])
  also have "\<dots> = ?k2 (0x3E # ?s3)"
    by (simp add: notGt_def)
  finally have "star_greedy notGt ?k2 (attrs @ 0x3E # ?s3) = Some body"
    using k2 by simp
  then show ?thesis
    by (simp add: bodyRegex_at_def lit_append [OF opn])
qed

lemma lit_SomeD1: "lit p k s = Some r \<Longrightarrow> ci_prefix p s"
  by (simp add: lit_ci split: if_splits)

lemma lit_SomeD2: "lit p k s = Some r \<Longrightarrow> k (drop (length p) s) = Some r"
  by (simp add: lit_ci split: if_splits)

lemma bodyRegex_at_needs:
  assumes "bodyRegex_at t = Some b"
  shows "ci_prefix (str ''<body'') t \<and> (\<exists>j. ci_prefix (str ''</body>'') (drop j t))"
proof -
  note m = assms [unfolded bodyRegex_at_def]
  note a = lit_SomeD1 [OF m]
  from star_greedy_Some [OF lit_SomeD2 [OF m]] obtain j
    where j: "lit (str ''>'') (\<lambda>s3. star_greedy anyCh
        (\<lambda>s4. lit (str ''</body>'') (\<lambda>s5. Some (consumed s3 s4)) s4) s3)
        (drop j (drop (length (str ''<body'')) t)) = Some b"
    by blast
  from star_greedy_Some [OF lit_SomeD2 [OF j]] obtain i
    where i: "lit (str ''</body>'')
        (\<lambda>s5. Some (consumed (drop (length (str ''>'')) (drop j (drop (length (str ''<body'')) t)))
                      (drop i (drop (length (str ''>'')) (drop j (drop (length (str ''<body'')) t))))))
        (drop i (drop (length (str ''>'')) (drop j (drop (length (str ''<body'')) t)))) = Some b"
    by blast
  have "ci_prefix (str ''</body>'')
      (drop i (drop (length (str ''>'')) (drop j (drop (length (str ''<body'')) t))))"
    by (rule lit_SomeD1 [OF i])
  then have "\<exists>n. ci_prefix (str ''</body>'') (drop n t)"
    unfolding drop_drop by (rule exI)
  with a show ?thesis by blast
qed

text \<open>
  Claim C2, as the code has it. The star of the group is greedy: when the HTML content
  is \<open>pre\<close>, an opening tag (\<open><body\<close> in any case, then the characters up to the
  next \<open>>\<close>), \<open>body\<close>, a closing tag (\<open></body>\<close> in any case) and \<open>post\<close>, where no
  \<open><body\<close> starts in \<open>pre\<close> and no closing tag starts after this one, the body
  substring is \<open>body\<close>: the text from the first opening tag up to the last closing
  tag, closing tags inside it included. When the content has no \<open><body\<close> at all, or no
  \<open></body>\<close> at all, the body substring is the whole content.
\<close>

theorem bodyContent_tags:
  "(html = pre @ opn @ attrs @ [0x3E] @ body @ cls @ post
      \<and> map canon opn = map canon (str ''<body'')
      \<and> (\<forall>i<length pre. \<not> ci_prefix (str ''<body'') (drop i html))
      \<and> 0x3E \<notin> set attrs
      \<and> map canon cls = map canon (str ''</body>'')
      \<and> (\<forall>j. 0 < j \<longrightarrow> \<not> ci_prefix (str ''</body>'') (drop j (cls @ post)))
     \<longrightarrow> bodyContent html = body)
   \<and> ((\<forall>i. \<not> ci_prefix (str ''<body'') (drop i html)) \<or> (\<forall>i. \<not> ci_prefix (str ''</body>'') (drop i html))
     \<longrightarrow> bodyContent html = html)"
proof (intro conjI impI)
  assume h: "html = pre @ opn @ attrs @ [0x3E] @ body @ cls @ post
      \<and> map canon opn = map canon (str ''<body'')
      \<and> (\<forall>i<length pre. \<not> ci_prefix (str ''<body'') (drop i html))
      \<and> 0x3E \<notin> set attrs
      \<and> map canon cls = map canon (str ''</body>'')
      \<and> (\<forall>j. 0 < j \<longrightarrow> \<not> ci_prefix (str ''</body>'') (drop j (cls @ post)))"
  let ?t = "opn @ attrs @ [0x3E] @ body @ cls @ post"
  from h have html: "html = pre @ ?t" by simp
  have "\<forall>i<length pre. bodyRegex_at (drop i (pre @ ?t)) = None"
  proof (intro allI impI)
    fix i assume "i < length pre"
    with h html have "\<not> ci_prefix (str ''<body'') (drop i (pre @ ?t))"
      by blast
    with bodyRegex_at_needs [of "drop i (pre @ ?t)"] show "bodyRegex_at (drop i (pre @ ?t)) = None"
      by (cases "bodyRegex_at (drop i (pre @ ?t))") auto
  qed
  then have "regexSearch bodyRegex_at (pre @ ?t) = regexSearch bodyRegex_at ?t"
    by (rule regexSearch_skip)
  moreover from h have "bodyRegex_at ?t = Some body"
    by (intro bodyRegex_at_match) blast+
  ultimately show "bodyContent html = body"
    by (simp add: bodyContent_def html regexSearch_here)
next
  assume h: "(\<forall>i. \<not> ci_prefix (str ''<body'') (drop i html)) \<or> (\<forall>i. \<not> ci_prefix (str ''</body>'') (drop i html))"
  have "\<forall>i. bodyRegex_at (drop i html) = None"
  proof
    fix i
    show "bodyRegex_at (drop i html) = None"
    proof (cases "bodyRegex_at (drop i html)")
      case None
      then show ?thesis .
    next
      case (Some b)
      from bodyRegex_at_needs [OF Some] obtain j
        where "ci_prefix (str ''<body'') (drop i html)" "ci_prefix (str ''</body>'') (drop j (drop i html))"
        by blast
      then have "ci_prefix (str ''<body'') (drop i html)" "ci_prefix (str ''</body>'') (drop (j + i) html)"
        by simp_all
      with h show ?thesis by blast
    qed
  qed
  then have "regexSearch bodyRegex_at html = None"
    by (rule regexSearch_None)
  then show "bodyContent html = html"
    by (simp add: bodyContent_def)
qed

lemma ci_occurs_drop: "ci_prefix p (drop j s) \<Longrightarrow> ci_occurs p s"
proof (induction s arbitrary: j)
  case Nil
  then show ?case by simp
next
  case (Cons c s)
  then show ?case by (cases j) auto
qed

text \<open>
  The theorem at a document with two closing tags, and at one with no body tags.
\<close>

theorem bodyContent_tags_witness:
  "bodyContent (str ''<html><BODY class=x>a</body>b</Body></html>'') = str ''a</body>b''
   \<and> bodyContent (str ''<p>hi</p>'') = str ''<p>hi</p>''"
proof -
  let ?pre = "str ''<html>''" and ?opn = "str ''<BODY''" and ?attrs = "str '' class=x''"
  let ?body = "str ''a</body>b''" and ?cls = "str ''</Body>''" and ?post = "str ''</html>''"
  let ?html = "str ''<html><BODY class=x>a</body>b</Body></html>''"
  have 1: "?html = ?pre @ ?opn @ ?attrs @ [0x3E] @ ?body @ ?cls @ ?post"
    by (simp add: str_def)
  have 2: "map canon ?opn = map canon (str ''<body'')"
    by (simp add: str_def canon_def)
  have 3: "\<forall>i<length ?pre. \<not> ci_prefix (str ''<body'') (drop i ?html)"
    by (simp add: str_def canon_def All_less_Suc)
  have 4: "0x3E \<notin> set ?attrs"
    by (simp add: str_def)
  have 5: "map canon ?cls = map canon (str ''</body>'')"
    by (simp add: str_def canon_def)
  have "\<not> ci_occurs (str ''</body>'') (tl (?cls @ ?post))"
    by (simp add: str_def canon_def)
  then have 6: "\<forall>j. 0 < j \<longrightarrow> \<not> ci_prefix (str ''</body>'') (drop j (?cls @ ?post))"
    using ci_occurs_drop [of "str ''</body>''" _ "tl (?cls @ ?post)"]
    by (metis Suc_pred' drop_Suc)
  have "\<not> ci_occurs (str ''<body'') (str ''<p>hi</p>'')"
    by (simp add: str_def canon_def)
  then have 7: "\<forall>i. \<not> ci_prefix (str ''<body'') (drop i (str ''<p>hi</p>''))"
    using ci_occurs_drop by blast
  from bodyContent_tags [of ?html ?pre ?opn ?attrs ?body ?cls ?post] 1 2 3 4 5 6
  have a: "bodyContent ?html = ?body"
    by blast
  from bodyContent_tags [of "str ''<p>hi</p>''"] 7
  have b: "bodyContent (str ''<p>hi</p>'') = str ''<p>hi</p>''"
    by blast
  from a b show ?thesis by simp
qed

text \<open>
  Claim C2 as the specification words it stops at the first closing tag. With two
  closing tags the code takes the text up to the second.
\<close>

theorem bodyContent_first_closing_counterexample:
  "bodyContent (str ''<body>a</body>b</body>'') = str ''a</body>b''
   \<and> bodyContent (str ''<body>a</body>b</body>'') \<noteq> str ''a''"
  by code_simp

section \<open>Properties of the synchronizer\<close>

lemma pushFile_trace:
  "snd (snd (pushFile pf fetch token repo file n)) =
     [Get (fileUrl repo file) (authHeader token),
      Put (fileUrl repo file) (authHeader token)
        (putBody pf file (lookupSha (fst (fetch n (Get (fileUrl repo file) (authHeader token))))))]"
  by (simp add: pushFile_def Let_def)

lemma pushFile_keys:
  "pushFile pf fetch token repo file n = (r, n', t) \<Longrightarrow>
     map (\<lambda>q. (isPut q, reqUrl q)) t = [(False, fileUrl repo file), (True, fileUrl repo file)]"
  by (auto simp: pushFile_def Let_def)

lemma syncLoop_append:
  "syncLoop pf fetch token repo (before @ rest) n =
     (case syncLoop pf fetch token repo before n of
        (Inl e, n1, t1) \<Rightarrow> (Inl e, n1, t1)
      | (Inr u, n1, t1) \<Rightarrow>
          (case syncLoop pf fetch token repo rest n1 of (r, n2, t2) \<Rightarrow> (r, n2, t1 @ t2)))"
proof (induction before arbitrary: n)
  case Nil
  show ?case by (simp split: prod.splits)
next
  case (Cons f before)
  show ?case
    by (simp add: Cons.IH split: prod.splits sum.splits)
qed

lemma syncLoop_keys:
  "syncLoop pf fetch token repo files n = (Inr u, n', t) \<Longrightarrow>
     map (\<lambda>q. (isPut q, reqUrl q)) t =
       concat (map (\<lambda>g. [(False, fileUrl repo g), (True, fileUrl repo g)]) files)"
proof (induction files arbitrary: n n' t)
  case Nil
  then show ?case by simp
next
  case (Cons f files)
  obtain r1 n1 t1 where p: "pushFile pf fetch token repo f n = (r1, n1, t1)"
    by (cases "pushFile pf fetch token repo f n") auto
  obtain r2 n2 t2 where s: "syncLoop pf fetch token repo files n1 = (r2, n2, t2)"
    by (cases "syncLoop pf fetch token repo files n1") auto
  from Cons.prems p s have r: "r1 = Inr ()" "r2 = Inr u" "t = t1 @ t2"
    by (auto split: sum.splits)
  from Cons.IH [of n1 n2 t2] s r have "map (\<lambda>q. (isPut q, reqUrl q)) t2 =
       concat (map (\<lambda>g. [(False, fileUrl repo g), (True, fileUrl repo g)]) files)"
    by simp
  with pushFile_keys [OF p] r show ?case by simp
qed

lemma writeOutcome_ok: "writeOutcome file r = Inr () \<longleftrightarrow> (\<exists>j. r = Response True j)"
  by (auto simp: writeOutcome_def split: fetch_result.splits json_result.splits bool.splits)

lemma syncLoop_fail:
  assumes "syncLoop pf fetch token repo before n = (Inr (), n1, t1)"
    and "pushFile pf fetch token repo file n1 = (Inl e, n2, t2)"
  shows "syncLoop pf fetch token repo (before @ file # rest) n = (Inl e, n2, t1 @ t2)"
  using assms by (simp add: syncLoop_append)

text \<open>
  Claim C6: the synchronization is sequential and stops at the first write that fails.
  When the files before \<open>file\<close> were all written (the loop over them ends well, in
  the network state \<open>n1\<close> with the requests \<open>t1\<close>) and the answer to the write of
  \<open>file\<close> is not an ok response, the whole run issues the requests \<open>t1\<close> and the two
  of \<open>file\<close> and no other: one lookup and one write for each file up to \<open>file\<close>, in
  order, and none for the files after it. The network is left in the state after the
  failed write, so what was written stays written. The application state records
  nothing of the progress: it changes by the error alert and the reset in-flight flag
  only.
\<close>

theorem syncToGithub_fail_fast:
  assumes "githubToken st \<noteq> []" and "repoName st \<noteq> []"
    and "projectFiles st = before @ file # rest"
    and "syncLoop pf fetch (githubToken st) (repoName st) before n = (Inr (), n1, t1)"
    and "fetch n1 (Get (fileUrl (repoName st) file) (authHeader (githubToken st))) = (r1, n1')"
    and "fetch n1' (Put (fileUrl (repoName st) file) (authHeader (githubToken st))
                     (putBody pf file (lookupSha r1))) = (r2, n2)"
    and "\<forall>j. r2 \<noteq> Response True j"
  shows "\<exists>e t. writeOutcome file r2 = Inl e
     \<and> syncToGithub pf fetch st n =
           (st\<lparr>alerts := alerts st @ [errorAlert e], isPushing := False\<rparr>, n2, t)
     \<and> t = t1 @ [Get (fileUrl (repoName st) file) (authHeader (githubToken st)),
                  Put (fileUrl (repoName st) file) (authHeader (githubToken st))
                    (putBody pf file (lookupSha r1))]
     \<and> map (\<lambda>q. (isPut q, reqUrl q)) t =
         concat (map (\<lambda>g. [(False, fileUrl (repoName st) g), (True, fileUrl (repoName st) g)])
                   (before @ [file]))"
proof -
  let ?t2 = "[Get (fileUrl (repoName st) file) (authHeader (githubToken st)),
              Put (fileUrl (repoName st) file) (authHeader (githubToken st))
                (putBody pf file (lookupSha r1))]"
  from assms(7) have "writeOutcome file r2 \<noteq> Inr ()"
    by (simp add: writeOutcome_ok)
  then obtain e where e: "writeOutcome file r2 = Inl e"
    by (cases "writeOutcome file r2") auto
  from assms(5,6) e have p: "pushFile pf fetch (githubToken st) (repoName st) file n1 = (Inl e, n2, ?t2)"
    by (simp add: pushFile_def Let_def)
  from syncLoop_fail [OF assms(4) p] assms(1,2,3)
  have "syncToGithub pf fetch st n =
           (st\<lparr>alerts := alerts st @ [errorAlert e], isPushing := False\<rparr>, n2, t1 @ ?t2)"
    by (simp add: syncToGithub_def)
  moreover from syncLoop_keys [OF assms(4)] pushFile_keys [OF p]
  have "map (\<lambda>q. (isPut q, reqUrl q)) (t1 @ ?t2) =
         concat (map (\<lambda>g. [(False, fileUrl (repoName st) g), (True, fileUrl (repoName st) g)])
                   (before @ [file]))"
    by simp
  ultimately show ?thesis using e by blast
qed

text \<open>
  Claim C9: with an empty token or an empty repository name the run issues no request,
  leaves the network as it was and opens the settings; with both set and an empty
  working set it issues no request either and alerts the "nothing to send" error, which
  is not the success message.
\<close>

theorem syncToGithub_preconditions:
  "(githubToken st = [] \<or> repoName st = [] \<longrightarrow>
      syncToGithub pf fetch st n = (st\<lparr>showSettings := True\<rparr>, n, []))
   \<and> (githubToken st \<noteq> [] \<and> repoName st \<noteq> [] \<and> projectFiles st = [] \<longrightarrow>
      syncToGithub pf fetch st n =
        (st\<lparr>alerts := alerts st @ [errorAlert (str ''Belum ada file untuk dikirim.'')],
            isPushing := False\<rparr>, n, []))
   \<and> errorAlert (str ''Belum ada file untuk dikirim.'') \<noteq> successAlert"
  by (simp add: syncToGithub_def errorAlert_def successAlert_def)

text \<open>
  The theorem at three files where the write of the second fails: the answer kept for a
  fifth request is still on the tape.
\<close>

theorem syncToGithub_fail_fast_witness:
  "syncToGithub std tape (ex_state [ex_fileA, ex_fileB, ex_fileC])
      [Response False (JsonObject None (Some (str ''Not Found''))), Response True (JsonObject None None),
       Response True (JsonObject (Some (str ''abc'')) None), Response False (JsonObject None None),
       Response True (JsonObject None None)]
    = ((ex_state [ex_fileA, ex_fileB, ex_fileC])
          \<lparr>alerts := [errorAlert (str ''Gagal push b.txt'')], isPushing := False\<rparr>,
       [Response True (JsonObject None None)],
       [Get (str ''https://api.github.com/repos/u/r/contents/a.txt'') (str ''token tok''),
        Put (str ''https://api.github.com/repos/u/r/contents/a.txt'') (str ''token tok'')
          (putBody std ex_fileA None),
        Get (str ''https://api.github.com/repos/u/r/contents/b.txt'') (str ''token tok''),
        Put (str ''https://api.github.com/repos/u/r/contents/b.txt'') (str ''token tok'')
          (putBody std ex_fileB (Some (str ''abc'')))])"
proof -
  let ?st = "ex_state [ex_fileA, ex_fileB, ex_fileC]"
  let ?n = "[Response False (JsonObject None (Some (str ''Not Found''))), Response True (JsonObject None None),
       Response True (JsonObject (Some (str ''abc'')) None), Response False (JsonObject None None),
       Response True (JsonObject None None)]"
  have 1: "githubToken ?st \<noteq> []" and 2: "repoName ?st \<noteq> []"
    by (simp_all add: ex_state_def str_def)
  have 3: "projectFiles ?st = [ex_fileA] @ ex_fileB # [ex_fileC]"
    by (simp add: ex_state_def)
  have 4: "syncLoop std tape (githubToken ?st) (repoName ?st) [ex_fileA] ?n =
      (Inr (), [Response True (JsonObject (Some (str ''abc'')) None), Response False (JsonObject None None),
                Response True (JsonObject None None)],
       [Get (fileUrl (str ''u/r'') ex_fileA) (authHeader (str ''tok'')),
        Put (fileUrl (str ''u/r'') ex_fileA) (authHeader (str ''tok'')) (putBody std ex_fileA None)])"
    by (simp add: ex_state_def pushFile_def tape_def lookupSha_def writeOutcome_def Let_def)
  have 5: "tape [Response True (JsonObject (Some (str ''abc'')) None), Response False (JsonObject None None),
                Response True (JsonObject None None)]
      (Get (fileUrl (repoName ?st) ex_fileB) (authHeader (githubToken ?st)))
     = (Response True (JsonObject (Some (str ''abc'')) None),
        [Response False (JsonObject None None), Response True (JsonObject None None)])"
    by (simp add: tape_def)
  have 6: "tape [Response False (JsonObject None None), Response True (JsonObject None None)]
      (Put (fileUrl (repoName ?st) ex_fileB) (authHeader (githubToken ?st))
         (putBody std ex_fileB (lookupSha (Response True (JsonObject (Some (str ''abc'')) None)))))
     = (Response False (JsonObject None None), [Response True (JsonObject None None)])"
    by (simp add: tape_def)
  have 7: "\<forall>j. Response False (JsonObject None None) \<noteq> Response True j"
    by simp
  from syncToGithub_fail_fast [OF 1 2 3 4 5 6 7] obtain e t
    where "writeOutcome ex_fileB (Response False (JsonObject None None)) = Inl e"
      and "syncToGithub std tape ?st ?n =
           (?st\<lparr>alerts := alerts ?st @ [errorAlert e], isPushing := False\<rparr>,
            [Response True (JsonObject None None)], t)"
      and "t = [Get (fileUrl (str ''u/r'') ex_fileA) (authHeader (str ''tok'')),
        Put (fileUrl (str ''u/r'') ex_fileA) (authHeader (str ''tok'')) (putBody std ex_fileA None)]
        @ [Get (fileUrl (repoName ?st) ex_fileB) (authHeader (githubToken ?st)),
           Put (fileUrl (repoName ?st) ex_fileB) (authHeader (githubToken ?st))
             (putBody std ex_fileB (lookupSha (Response True (JsonObject (Some (str ''abc'')) None))))]"
    by blast
  then show ?thesis
    by (simp add: ex_state_def fileUrl_def authHeader_def ex_fileA_def ex_fileB_def str_def
        writeOutcome_def lookupSha_def)
qed

text \<open>The theorem at a state with no token, and at one with no file.\<close>

theorem syncToGithub_preconditions_witness:
  "syncToGithub std tape ((ex_state [ex_fileA])\<lparr>githubToken := []\<rparr>) [Response True (JsonObject None None)]
     = ((ex_state [ex_fileA])\<lparr>githubToken := [], showSettings := True\<rparr>, [Response True (JsonObject None None)], [])
   \<and> syncToGithub std tape (ex_state []) [Response True (JsonObject None None)]
     = ((ex_state [])\<lparr>alerts := [errorAlert (str ''Belum ada file untuk dikirim.'')]\<rparr>,
        [Response True (JsonObject None None)], [])"
proof -
  let ?s1 = "(ex_state [ex_fileA])\<lparr>githubToken := []\<rparr>" and ?s2 = "ex_state []"
  have a: "githubToken ?s1 = [] \<or> repoName ?s1 = []"
    by simp
  have b: "githubToken ?s2 \<noteq> [] \<and> repoName ?s2 \<noteq> [] \<and> projectFiles ?s2 = []"
    by (simp add: ex_state_def str_def)
  note p1 = syncToGithub_preconditions [of ?s1 std tape "[Response True (JsonObject None None)]",
      THEN conjunct1, rule_format, OF a]
  note p2 = syncToGithub_preconditions [of ?s2 std tape "[Response True (JsonObject None None)]",
      THEN conjunct2, THEN conjunct1, rule_format, OF b]
  from p1 p2 show ?thesis
    by (simp add: ex_state_def)
qed

lemma putBody_sha:
  "body_sha (putBody pf file (lookupSha r)) = Some h \<longleftrightarrow>
     h \<noteq> [] \<and> (\<exists>m. r = Response True (JsonObject (Some h) m))"
  by (auto simp: putBody_def lookupSha_def
      split: option.splits fetch_result.splits json_result.splits bool.splits if_splits)

lemma syncLoop_all_writes_ok:
  assumes "\<forall>m q. isPut q \<longrightarrow> (\<exists>j. fst (fetch m q) = Response True j)"
  shows "\<exists>n' t. syncLoop pf fetch token repo files n = (Inr (), n', t)"
proof (induction files arbitrary: n)
  case Nil
  show ?case by simp
next
  case (Cons f files)
  let ?get = "Get (fileUrl repo f) (authHeader token)"
  let ?put = "Put (fileUrl repo f) (authHeader token) (putBody pf f (lookupSha (fst (fetch n ?get))))"
  from assms have "\<exists>j. fst (fetch (snd (fetch n ?get)) ?put) = Response True j"
    by simp
  then have "fst (pushFile pf fetch token repo f n) = Inr ()"
    by (simp add: pushFile_def Let_def writeOutcome_ok)
  then obtain n1 t1 where p: "pushFile pf fetch token repo f n = (Inr (), n1, t1)"
    by (cases "pushFile pf fetch token repo f n") auto
  from Cons.IH [of n1] obtain n2 t2 where "syncLoop pf fetch token repo files n1 = (Inr (), n2, t2)"
    by blast
  with p show ?case by simp
qed

text \<open>
  Claim C7: whatever the lookup answers, the write of the file is issued after it; the
  write carries a \<open>sha\<close> exactly when the lookup's response was ok and its object had a
  (non-empty) \<open>sha\<close>, and then that one; and the file goes through exactly when the
  write's answer is ok. So a run in which every write is accepted ends with the success
  message, whatever the lookups did: a failed lookup is never shown.
\<close>

theorem pushFile_lookup_swallowed:
  "(\<exists>body. snd (snd (pushFile pf fetch token repo file n)) =
        [Get (fileUrl repo file) (authHeader token), Put (fileUrl repo file) (authHeader token) body]
      \<and> (\<forall>h. body_sha body = Some h \<longleftrightarrow>
            h \<noteq> [] \<and> (\<exists>m. fst (fetch n (Get (fileUrl repo file) (authHeader token)))
                               = Response True (JsonObject (Some h) m)))
      \<and> (fst (pushFile pf fetch token repo file n) = Inr () \<longleftrightarrow>
            (\<exists>j. fst (fetch (snd (fetch n (Get (fileUrl repo file) (authHeader token))))
                        (Put (fileUrl repo file) (authHeader token) body)) = Response True j)))
   \<and> ((\<forall>m q. isPut q \<longrightarrow> (\<exists>j. fst (fetch m q) = Response True j))
        \<and> githubToken st \<noteq> [] \<and> repoName st \<noteq> [] \<and> projectFiles st \<noteq> [] \<longrightarrow>
      fst (syncToGithub pf fetch st n) = st\<lparr>alerts := alerts st @ [successAlert], isPushing := False\<rparr>)"
proof (intro conjI impI)
  let ?get = "Get (fileUrl repo file) (authHeader token)"
  let ?body = "putBody pf file (lookupSha (fst (fetch n ?get)))"
  have "snd (snd (pushFile pf fetch token repo file n)) = [?get, Put (fileUrl repo file) (authHeader token) ?body]"
    by (simp add: pushFile_def Let_def)
  moreover have "\<forall>h. body_sha ?body = Some h \<longleftrightarrow>
            h \<noteq> [] \<and> (\<exists>m. fst (fetch n ?get) = Response True (JsonObject (Some h) m))"
    by (simp add: putBody_sha)
  moreover have "fst (pushFile pf fetch token repo file n) = Inr () \<longleftrightarrow>
            (\<exists>j. fst (fetch (snd (fetch n ?get)) (Put (fileUrl repo file) (authHeader token) ?body)) = Response True j)"
    by (simp add: pushFile_def Let_def writeOutcome_ok)
  ultimately show "\<exists>body. snd (snd (pushFile pf fetch token repo file n)) =
        [Get (fileUrl repo file) (authHeader token), Put (fileUrl repo file) (authHeader token) body]
      \<and> (\<forall>h. body_sha body = Some h \<longleftrightarrow>
            h \<noteq> [] \<and> (\<exists>m. fst (fetch n (Get (fileUrl repo file) (authHeader token)))
                               = Response True (JsonObject (Some h) m)))
      \<and> (fst (pushFile pf fetch token repo file n) = Inr () \<longleftrightarrow>
            (\<exists>j. fst (fetch (snd (fetch n (Get (fileUrl repo file) (authHeader token))))
                        (Put (fileUrl repo file) (authHeader token) body)) = Response True j))"
    by blast
next
  assume h: "(\<forall>m q. isPut q \<longrightarrow> (\<exists>j. fst (fetch m q) = Response True j))
        \<and> githubToken st \<noteq> [] \<and> repoName st \<noteq> [] \<and> projectFiles st \<noteq> []"
  then have "\<forall>m q. isPut q \<longrightarrow> (\<exists>j. fst (fetch m q) = Response True j)"
    by blast
  from syncLoop_all_writes_ok [OF this, of pf "githubToken st" "repoName st" "projectFiles st" n]
  obtain n' t where "syncLoop pf fetch (githubToken st) (repoName st) (projectFiles st) n = (Inr (), n', t)"
    by blast
  with h show "fst (syncToGithub pf fetch st n) = st\<lparr>alerts := alerts st @ [successAlert], isPushing := False\<rparr>"
    by (simp add: syncToGithub_def)
qed

text \<open>The theorem on a network where every lookup fails and every write is accepted.\<close>

theorem pushFile_lookup_swallowed_witness:
  "syncToGithub std lookupsDown (ex_state [ex_fileA, ex_fileB]) 0 =
     ((ex_state [ex_fileA, ex_fileB])\<lparr>alerts := [successAlert]\<rparr>, 4,
      [Get (fileUrl (str ''u/r'') ex_fileA) (authHeader (str ''tok'')),
       Put (fileUrl (str ''u/r'') ex_fileA) (authHeader (str ''tok'')) (putBody std ex_fileA None),
       Get (fileUrl (str ''u/r'') ex_fileB) (authHeader (str ''tok'')),
       Put (fileUrl (str ''u/r'') ex_fileB) (authHeader (str ''tok'')) (putBody std ex_fileB None)])"
proof -
  let ?st = "ex_state [ex_fileA, ex_fileB]"
  have 1: "\<forall>m q. isPut q \<longrightarrow> (\<exists>j. fst (lookupsDown m q) = Response True j)"
    by (simp add: lookupsDown_def)
  have 2: "githubToken ?st \<noteq> [] \<and> repoName ?st \<noteq> [] \<and> projectFiles ?st \<noteq> []"
    by (simp add: ex_state_def str_def)
  from pushFile_lookup_swallowed [of std lookupsDown _ _ _ _ ?st] 1 2
  have "fst (syncToGithub std lookupsDown ?st 0) = ?st\<lparr>alerts := alerts ?st @ [successAlert], isPushing := False\<rparr>"
    by blast
  moreover have "snd (syncToGithub std lookupsDown ?st 0) = (4,
      [Get (fileUrl (str ''u/r'') ex_fileA) (authHeader (str ''tok'')),
       Put (fileUrl (str ''u/r'') ex_fileA) (authHeader (str ''tok'')) (putBody std ex_fileA None),
       Get (fileUrl (str ''u/r'') ex_fileB) (authHeader (str ''tok'')),
       Put (fileUrl (str ''u/r'') ex_fileB) (authHeader (str ''tok'')) (putBody std ex_fileB None)])"
    by (simp add: syncToGithub_def ex_state_def pushFile_def lookupsDown_def lookupSha_def
        writeOutcome_def Let_def str_def)
  ultimately show ?thesis
    by (simp add: prod_eq_iff ex_state_def)
qed

lemma startsWith_append: "startsWith (p @ t) p"
  by (induction p) simp_all

lemma js_includes_append: "js_includes (a @ b) b"
proof (induction a)
  case Nil
  show ?case using startsWith_append [of b "[]"] by (cases b) simp_all
next
  case (Cons c a)
  then show ?case by simp
qed

text \<open>
  Claim C4, as the code has it. When the files before \<open>file\<close> were written and the
  write of \<open>file\<close> gets a response that is not ok, with a JSON object as its body, the
  run stops there (the requests are those up to this write) and alerts one error: the
  message of the remote when the object has a non-empty one, and otherwise the generic
  message, which names the file.
\<close>

theorem syncToGithub_write_rejected:
  assumes "githubToken st \<noteq> []" and "repoName st \<noteq> []"
    and "projectFiles st = before @ file # rest"
    and "syncLoop pf fetch (githubToken st) (repoName st) before n = (Inr (), n1, t1)"
    and "fetch n1 (Get (fileUrl (repoName st) file) (authHeader (githubToken st))) = (r1, n1')"
    and "fetch n1' (Put (fileUrl (repoName st) file) (authHeader (githubToken st))
                     (putBody pf file (lookupSha r1))) = (Response False (JsonObject sha msg), n2)"
  shows "(\<forall>m. msg = Some m \<and> m \<noteq> [] \<longrightarrow>
            fst (syncToGithub pf fetch st n) = st\<lparr>alerts := alerts st @ [errorAlert m], isPushing := False\<rparr>)
     \<and> (msg = None \<or> msg = Some [] \<longrightarrow>
            fst (syncToGithub pf fetch st n) =
              st\<lparr>alerts := alerts st @ [errorAlert (str ''Gagal push '' @ name file)], isPushing := False\<rparr>)
     \<and> js_includes (errorAlert (str ''Gagal push '' @ name file)) (name file)
     \<and> snd (syncToGithub pf fetch st n) =
         (n2, t1 @ [Get (fileUrl (repoName st) file) (authHeader (githubToken st)),
                    Put (fileUrl (repoName st) file) (authHeader (githubToken st))
                      (putBody pf file (lookupSha r1))])"
proof -
  let ?e = "case msg of None \<Rightarrow> str ''Gagal push '' @ name file
            | Some m \<Rightarrow> if m = [] then str ''Gagal push '' @ name file else m"
  let ?t2 = "[Get (fileUrl (repoName st) file) (authHeader (githubToken st)),
              Put (fileUrl (repoName st) file) (authHeader (githubToken st))
                (putBody pf file (lookupSha r1))]"
  from assms(5,6) have p: "pushFile pf fetch (githubToken st) (repoName st) file n1 = (Inl ?e, n2, ?t2)"
    by (simp add: pushFile_def Let_def writeOutcome_def)
  from syncLoop_fail [OF assms(4) p] assms(1,2,3)
  have s: "syncToGithub pf fetch st n =
      (st\<lparr>alerts := alerts st @ [errorAlert ?e], isPushing := False\<rparr>, n2, t1 @ ?t2)"
    by (simp add: syncToGithub_def)
  have i: "js_includes (errorAlert (str ''Gagal push '' @ name file)) (name file)"
    using js_includes_append [of "[0x274C] @ str '' GitHub Error: '' @ str ''Gagal push ''" "name file"]
    by (simp add: errorAlert_def)
  from s i show ?thesis by auto
qed

text \<open>The theorem at a write that is refused without a message.\<close>

theorem syncToGithub_write_rejected_witness:
  "syncToGithub std tape (ex_state [ex_fileA, ex_fileB])
      [Rejected (str ''Failed to fetch''), Response False (JsonObject None None),
       Response True (JsonObject None None)]
    = ((ex_state [ex_fileA, ex_fileB])\<lparr>alerts := [errorAlert (str ''Gagal push a.txt'')]\<rparr>,
       [Response True (JsonObject None None)],
       [Get (fileUrl (str ''u/r'') ex_fileA) (authHeader (str ''tok'')),
        Put (fileUrl (str ''u/r'') ex_fileA) (authHeader (str ''tok'')) (putBody std ex_fileA None)])
   \<and> js_includes (errorAlert (str ''Gagal push a.txt'')) (str ''a.txt'')"
proof -
  let ?st = "ex_state [ex_fileA, ex_fileB]"
  let ?n = "[Rejected (str ''Failed to fetch''), Response False (JsonObject None None),
       Response True (JsonObject None None)]"
  have 1: "githubToken ?st \<noteq> []" and 2: "repoName ?st \<noteq> []"
    by (simp_all add: ex_state_def str_def)
  have 3: "projectFiles ?st = [] @ ex_fileA # [ex_fileB]"
    by (simp add: ex_state_def)
  have 4: "syncLoop std tape (githubToken ?st) (repoName ?st) [] ?n = (Inr (), ?n, [])"
    by simp
  have 5: "tape ?n (Get (fileUrl (repoName ?st) ex_fileA) (authHeader (githubToken ?st)))
     = (Rejected (str ''Failed to fetch''), [Response False (JsonObject None None), Response True (JsonObject None None)])"
    by (simp add: tape_def)
  have 6: "tape [Response False (JsonObject None None), Response True (JsonObject None None)]
      (Put (fileUrl (repoName ?st) ex_fileA) (authHeader (githubToken ?st))
         (putBody std ex_fileA (lookupSha (Rejected (str ''Failed to fetch'')))))
     = (Response False (JsonObject None None), [Response True (JsonObject None None)])"
    by (simp add: tape_def)
  from syncToGithub_write_rejected [OF 1 2 3 4 5 6]
  have "fst (syncToGithub std tape ?st ?n) =
          ?st\<lparr>alerts := alerts ?st @ [errorAlert (str ''Gagal push '' @ name ex_fileA)], isPushing := False\<rparr>"
    and "js_includes (errorAlert (str ''Gagal push '' @ name ex_fileA)) (name ex_fileA)"
    and "snd (syncToGithub std tape ?st ?n) =
         ([Response True (JsonObject None None)],
          [] @ [Get (fileUrl (repoName ?st) ex_fileA) (authHeader (githubToken ?st)),
                Put (fileUrl (repoName ?st) ex_fileA) (authHeader (githubToken ?st))
                  (putBody std ex_fileA (lookupSha (Rejected (str ''Failed to fetch''))))])"
    by blast+
  then show ?thesis
    by (simp add: prod_eq_iff ex_state_def ex_fileA_def lookupSha_def str_def)
qed

text \<open>
  Claim C4 as the specification words it has the error name the failing file and carry
  the remote message as well. With a remote message the error is that message alone.
\<close>

theorem syncToGithub_error_names_file_counterexample:
  "syncToGithub std tape (ex_state [ex_fileA])
      [Response False (JsonObject None (Some (str ''Not Found''))),
       Response False (JsonObject None (Some (str ''Bad credentials'')))]
    = ((ex_state [ex_fileA])\<lparr>alerts := [errorAlert (str ''Bad credentials'')]\<rparr>, [],
       [Get (fileUrl (str ''u/r'') ex_fileA) (authHeader (str ''tok'')),
        Put (fileUrl (str ''u/r'') ex_fileA) (authHeader (str ''tok'')) (putBody std ex_fileA None)])
   \<and> name ex_fileA = str ''a.txt''
   \<and> \<not> js_includes (errorAlert (str ''Bad credentials'')) (str ''a.txt'')"
  by (simp add: syncToGithub_def ex_state_def pushFile_def tape_def lookupSha_def writeOutcome_def
      Let_def ex_fileA_def errorAlert_def str_def)

lemma unat_byte_less: "unat (b :: byte) < 256"
  using unsigned_less [of b, where ?'a = nat] by simp

lemma unat_cu_less: "unat (c :: cu) < 65536"
  using unsigned_less [of c, where ?'a = nat] by simp

lemma unat_binString: "unat (ucast (b :: byte) :: cu) = unat b"
proof -
  have "unat b < 2 ^ 16"
    using unat_byte_less [of b] by simp
  then show ?thesis
    by (simp add: unsigned_ucast_eq take_bit_nat_eq_self)
qed

lemma binString_small: "\<not> list_ex (\<lambda>c. 0xFF < c) (binString bytes)"
proof -
  have "\<not> (0xFF :: cu) < ucast b" for b :: byte
    using unat_byte_less [of b] by (simp add: word_less_nat_alt unat_binString)
  then show ?thesis
    by (simp add: binString_def list_ex_iff)
qed

lemma btoa_std_binString: "btoa_std (binString bytes) = Inr (base64 (map unat bytes))"
  by (simp add: btoa_std_def binString_small) (simp add: binString_def unat_binString comp_def)

lemma toBase64_std: "toBase64 std s = base64 (map unat (utf8_encode s))"
  by (simp add: toBase64_def std_def btoa_std_binString)

text \<open>
  Claim C10: \<open>toBase64\<close> always returns a string. When the encoder or \<open>btoa\<close> throws
  it returns the empty string, and otherwise what \<open>btoa\<close> returns; on the standard
  platform neither throws. After a failure the synchronizer issues the write of the file
  all the same, with an empty content, and the outcome for the file is that of the
  write's answer: no error is reported for the encoding.
\<close>

theorem toBase64_total:
  "(textEncode pf s = Inl e \<longrightarrow> toBase64 pf s = [])
   \<and> (textEncode pf s = Inr bytes \<and> btoa pf (binString bytes) = Inl e \<longrightarrow> toBase64 pf s = [])
   \<and> (textEncode pf s = Inr bytes \<and> btoa pf (binString bytes) = Inr r \<longrightarrow> toBase64 pf s = r)
   \<and> (\<exists>bytes r. textEncode std s = Inr bytes \<and> btoa std (binString bytes) = Inr r)
   \<and> ((\<exists>e. textEncode pf (content file) = Inl e)
        \<or> (\<exists>bytes e. textEncode pf (content file) = Inr bytes \<and> btoa pf (binString bytes) = Inl e) \<longrightarrow>
       (\<exists>sha. snd (snd (pushFile pf fetch token repo file n)) =
          [Get (fileUrl repo file) (authHeader token),
           Put (fileUrl repo file) (authHeader token)
             \<lparr>commit_message = str ''Update via AI Studio: '' @ name file, body_content = [], body_sha = sha\<rparr>]
        \<and> fst (pushFile pf fetch token repo file n) =
            writeOutcome file (fst (fetch (snd (fetch n (Get (fileUrl repo file) (authHeader token))))
              (Put (fileUrl repo file) (authHeader token)
                 \<lparr>commit_message = str ''Update via AI Studio: '' @ name file, body_content = [], body_sha = sha\<rparr>)))))"
proof (intro conjI impI)
  show "\<exists>bytes r. textEncode std s = Inr bytes \<and> btoa std (binString bytes) = Inr r"
    by (simp add: std_def btoa_std_binString)
next
  assume "(\<exists>e. textEncode pf (content file) = Inl e)
        \<or> (\<exists>bytes e. textEncode pf (content file) = Inr bytes \<and> btoa pf (binString bytes) = Inl e)"
  then have "toBase64 pf (content file) = []"
    by (auto simp: toBase64_def)
  then show "\<exists>sha. snd (snd (pushFile pf fetch token repo file n)) =
          [Get (fileUrl repo file) (authHeader token),
           Put (fileUrl repo file) (authHeader token)
             \<lparr>commit_message = str ''Update via AI Studio: '' @ name file, body_content = [], body_sha = sha\<rparr>]
        \<and> fst (pushFile pf fetch token repo file n) =
            writeOutcome file (fst (fetch (snd (fetch n (Get (fileUrl repo file) (authHeader token))))
              (Put (fileUrl repo file) (authHeader token)
                 \<lparr>commit_message = str ''Update via AI Studio: '' @ name file, body_content = [], body_sha = sha\<rparr>)))"
    by (simp add: pushFile_def Let_def putBody_def)
qed (simp_all add: toBase64_def)

text \<open>The theorem on a platform whose \<open>btoa\<close> throws: the write is accepted.\<close>

theorem toBase64_total_witness:
  "toBase64 brokenPlatform (str ''x'') = []
   \<and> syncToGithub brokenPlatform tape (ex_state [ex_fileA])
        [Response False (JsonObject None None), Response True (JsonObject None None)]
      = ((ex_state [ex_fileA])\<lparr>alerts := [successAlert]\<rparr>, [],
         [Get (fileUrl (str ''u/r'') ex_fileA) (authHeader (str ''tok'')),
          Put (fileUrl (str ''u/r'') ex_fileA) (authHeader (str ''tok''))
            \<lparr>commit_message = str ''Update via AI Studio: a.txt'', body_content = [], body_sha = None\<rparr>])"
proof -
  have 1: "textEncode brokenPlatform (str ''x'') = Inr (utf8_encode (str ''x''))
     \<and> btoa brokenPlatform (binString (utf8_encode (str ''x''))) = Inl (str ''InvalidCharacterError'')"
    by (simp add: brokenPlatform_def)
  note t = toBase64_total [where pf = brokenPlatform and s = "str ''x''"
      and e = "str ''InvalidCharacterError''" and bytes = "utf8_encode (str ''x'')"]
  from t [THEN conjunct2, THEN conjunct1, rule_format, OF 1]
  have a: "toBase64 brokenPlatform (str ''x'') = []" .
  then have "toBase64 brokenPlatform (content ex_fileA) = []"
    by (simp add: ex_fileA_def)
  then have "syncToGithub brokenPlatform tape (ex_state [ex_fileA])
        [Response False (JsonObject None None), Response True (JsonObject None None)]
      = ((ex_state [ex_fileA])\<lparr>alerts := [successAlert]\<rparr>, [],
         [Get (fileUrl (str ''u/r'') ex_fileA) (authHeader (str ''tok'')),
          Put (fileUrl (str ''u/r'') ex_fileA) (authHeader (str ''tok''))
            \<lparr>commit_message = str ''Update via AI Studio: a.txt'', body_content = [], body_sha = None\<rparr>])"
    by (simp add: syncToGithub_def ex_state_def pushFile_def tape_def lookupSha_def writeOutcome_def
        Let_def putBody_def) (simp add: ex_fileA_def str_def)
  with a show ?thesis by simp
qed

section \<open>Properties of the transport encoding\<close>

lemma unat_of_nat_byte: "n < 256 \<Longrightarrow> unat (of_nat n :: byte) = n"
  by (simp add: unat_of_nat)

lemma unat_of_nat_cu: "n < 65536 \<Longrightarrow> unat (of_nat n :: cu) = n"
  by (simp add: unat_of_nat)

lemma b64val_b64chr_all: "list_all (\<lambda>n. b64val (b64chr n) = Some n) [0..<64]"
  by code_simp

lemma b64val_b64chr:
  assumes "n < 64"
  shows "b64val (b64chr n) = Some n"
proof -
  from assms have "n \<in> set [0..<64]" by simp
  with b64val_b64chr_all show ?thesis
    unfolding list_all_iff by blast
qed

lemma b64chr_not_pad: "n < 64 \<Longrightarrow> b64chr n \<noteq> 0x3D"
proof
  assume "n < 64" and "b64chr n = 0x3D"
  with b64val_b64chr [of n] have "b64val 0x3D = Some n" by simp
  then show False by (simp add: b64val_def)
qed

lemma sextets:
  fixes a b c :: nat
  assumes "a < 256" "b < 256" "c < 256"
  shows "a div 4 < 64" "a mod 4 * 16 < 64" "a mod 4 * 16 + b div 16 < 64" "b mod 16 * 4 < 64"
    "b mod 16 * 4 + c div 64 < 64" "c mod 64 < 64"
  using assms by simp_all

lemma regroup:
  fixes a b c :: nat
  assumes "b < 256" "c < 256"
  shows "a div 4 * 4 + a mod 4 * 16 div 16 = a"
    "a div 4 * 4 + (a mod 4 * 16 + b div 16) div 16 = a"
    "(a mod 4 * 16 + b div 16) mod 16 * 16 + b mod 16 * 4 div 4 = b"
    "(a mod 4 * 16 + b div 16) mod 16 * 16 + (b mod 16 * 4 + c div 64) div 4 = b"
    "(b mod 16 * 4 + c div 64) mod 4 * 64 + c mod 64 = c"
proof -
  from assms have b: "b div 16 < 16" and c: "c div 64 < 4"
    by simp_all
  show "a div 4 * 4 + a mod 4 * 16 div 16 = a"
    by simp
  from b show "a div 4 * 4 + (a mod 4 * 16 + b div 16) div 16 = a"
    by simp
  from b show "(a mod 4 * 16 + b div 16) mod 16 * 16 + b mod 16 * 4 div 4 = b"
    by simp
  from b c show "(a mod 4 * 16 + b div 16) mod 16 * 16 + (b mod 16 * 4 + c div 64) div 4 = b"
    by simp
  from c show "(b mod 16 * 4 + c div 64) mod 4 * 64 + c mod 64 = c"
    by simp
qed

lemma base64_decode_base64:
  "\<forall>n\<in>set ns. n < 256 \<Longrightarrow> base64_decode (base64 ns) = Some (map of_nat ns)"
proof (induction ns rule: base64.induct)
  case 1
  show ?case by simp
next
  case (2 a)
  then have a: "a < 256" by simp
  define x y where "x = a div 4" and "y = a mod 4 * 16"
  have enc: "base64 [a] = [b64chr x, b64chr y, 0x3D, 0x3D]"
    by (simp add: x_def y_def)
  have bounds: "x < 64" "y < 64"
    unfolding x_def y_def by (rule sextets [OF a a a])+
  have r: "x * 4 + y div 16 = a"
    unfolding x_def y_def by (rule regroup [OF a a])
  show ?case
    unfolding enc by (simp add: b64val_b64chr bounds r)
next
  case (3 a b)
  then have a: "a < 256" and b: "b < 256" by simp_all
  define x y z where "x = a div 4" and "y = a mod 4 * 16 + b div 16" and "z = b mod 16 * 4"
  have enc: "base64 [a, b] = [b64chr x, b64chr y, b64chr z, 0x3D]"
    by (simp add: x_def y_def z_def)
  have bounds: "x < 64" "y < 64" "z < 64"
    unfolding x_def y_def z_def by (rule sextets [OF a b b])+
  have r: "x * 4 + y div 16 = a" "y mod 16 * 16 + z div 4 = b"
    unfolding x_def y_def z_def by (rule regroup [OF b b])+
  show ?case
    unfolding enc by (simp add: b64val_b64chr b64chr_not_pad bounds r)
next
  case (4 a b c bs)
  then have a: "a < 256" and b: "b < 256" and c: "c < 256" and bs: "\<forall>n\<in>set bs. n < 256"
    by simp_all
  define x y z w where "x = a div 4" and "y = a mod 4 * 16 + b div 16"
    and "z = b mod 16 * 4 + c div 64" and "w = c mod 64"
  have enc: "base64 (a # b # c # bs) = b64chr x # b64chr y # b64chr z # b64chr w # base64 bs"
    by (simp add: x_def y_def z_def w_def)
  have bounds: "x < 64" "y < 64" "z < 64" "w < 64"
    unfolding x_def y_def z_def w_def by (rule sextets [OF a b c])+
  have r: "x * 4 + y div 16 = a" "y mod 16 * 16 + z div 4 = b" "z mod 4 * 64 + w = c"
    unfolding x_def y_def z_def w_def by (rule regroup [OF b c])+
  show ?case
    unfolding enc by (simp add: b64val_b64chr b64chr_not_pad bounds r "4.IH" [OF bs])
qed

lemma base64_decode_bytes: "base64_decode (base64 (map unat (bs :: byte list))) = Some bs"
proof -
  have "\<forall>n\<in>set (map unat bs). n < 256"
    using unat_byte_less by auto
  from base64_decode_base64 [OF this] show ?thesis
    by (simp add: comp_def)
qed

lemma utf8_decode_1:
  assumes "n < 0x80"
  shows "utf8_decode (utf8_bytes n @ rest) = map_option ((#) n) (utf8_decode rest)"
proof -
  have u: "unat (of_nat n :: byte) = n"
    using assms by (intro unat_of_nat_byte) simp
  from assms have enc: "utf8_bytes n = [of_nat n]"
    by (simp add: utf8_bytes_def)
  show ?thesis
    unfolding enc using assms by (simp add: word_less_nat_alt u)
qed

lemma utf8_decode_2:
  assumes "0x80 \<le> n" "n < 0x800"
  shows "utf8_decode (utf8_bytes n @ rest) = map_option ((#) n) (utf8_decode rest)"
proof -
  define k0 k1 where "k0 = 0xC0 + n div 0x40" and "k1 = 0x80 + n mod 0x40"
  from assms have enc: "utf8_bytes n = [of_nat k0, of_nat k1]"
    by (simp add: utf8_bytes_def k0_def k1_def)
  from assms have d: "n div 0x40 < 0x20"
    by simp
  have r0: "0xC0 \<le> k0" "k0 < 0xE0" and r1: "0x80 \<le> k1" "k1 \<le> 0xBF"
    using d by (simp_all add: k0_def k1_def)
  have u: "unat (of_nat k0 :: byte) = k0" "unat (of_nat k1 :: byte) = k1"
    using r0 r1 by (simp_all add: unat_of_nat_byte)
  have v: "(k0 - 0xC0) * 0x40 + (k1 - 0x80) = n"
    by (simp add: k0_def k1_def)
  show ?thesis
    unfolding enc using r0 r1 assms
    by (simp add: word_less_nat_alt word_le_nat_alt cont_byte_def u v)
qed

lemma utf8_decode_3:
  assumes "0x800 \<le> n" "n < 0x10000" "scalar n"
  shows "utf8_decode (utf8_bytes n @ rest) = map_option ((#) n) (utf8_decode rest)"
proof -
  define k0 k1 k2 where "k0 = 0xE0 + n div 0x1000" and "k1 = 0x80 + n div 0x40 mod 0x40"
    and "k2 = 0x80 + n mod 0x40"
  from assms have enc: "utf8_bytes n = [of_nat k0, of_nat k1, of_nat k2]"
    by (simp add: utf8_bytes_def k0_def k1_def k2_def)
  from assms have d: "n div 0x1000 < 0x10"
    by simp
  have r0: "0xE0 \<le> k0" "k0 < 0xF0" and r1: "0x80 \<le> k1" "k1 \<le> 0xBF" and r2: "0x80 \<le> k2" "k2 \<le> 0xBF"
    using d by (simp_all add: k0_def k1_def k2_def)
  have u: "unat (of_nat k0 :: byte) = k0" "unat (of_nat k1 :: byte) = k1" "unat (of_nat k2 :: byte) = k2"
    using r0 r1 r2 by (simp_all add: unat_of_nat_byte)
  have "n div 0x1000 * 0x1000 + n div 0x40 mod 0x40 * 0x40 + n mod 0x40 = n"
  proof -
    have e: "n div 0x40 div 0x40 = n div 0x1000"
      using div_mult2_eq [of n "0x40" "0x40"] by simp
    have "n div 0x40 = n div 0x1000 * 0x40 + n div 0x40 mod 0x40"
      unfolding e [symmetric] by (rule div_mult_mod_eq [symmetric])
    then have "n div 0x1000 * 0x1000 + n div 0x40 mod 0x40 * 0x40 = n div 0x40 * 0x40"
      by simp
    then show ?thesis by simp
  qed
  then have v: "(k0 - 0xE0) * 0x1000 + (k1 - 0x80) * 0x40 + (k2 - 0x80) = n"
    by (simp add: k0_def k1_def k2_def)
  show ?thesis
    unfolding enc using r0 r1 r2 assms
    by (simp add: word_less_nat_alt word_le_nat_alt cont_byte_def u v)
qed

lemma utf8_decode_4:
  assumes "0x10000 \<le> n" "scalar n"
  shows "utf8_decode (utf8_bytes n @ rest) = map_option ((#) n) (utf8_decode rest)"
proof -
  define k0 k1 k2 k3 where "k0 = 0xF0 + n div 0x40000" and "k1 = 0x80 + n div 0x1000 mod 0x40"
    and "k2 = 0x80 + n div 0x40 mod 0x40" and "k3 = 0x80 + n mod 0x40"
  from assms have n: "n < 0x110000"
    by (simp add: scalar_def)
  from assms have enc: "utf8_bytes n = [of_nat k0, of_nat k1, of_nat k2, of_nat k3]"
    by (simp add: utf8_bytes_def k0_def k1_def k2_def k3_def)
  from n have d: "n div 0x40000 < 0x8"
    by simp
  have r0: "0xF0 \<le> k0" "k0 < 0xF8" and r1: "0x80 \<le> k1" "k1 \<le> 0xBF"
    and r2: "0x80 \<le> k2" "k2 \<le> 0xBF" and r3: "0x80 \<le> k3" "k3 \<le> 0xBF"
    using d by (simp_all add: k0_def k1_def k2_def k3_def)
  have u: "unat (of_nat k0 :: byte) = k0" "unat (of_nat k1 :: byte) = k1"
    "unat (of_nat k2 :: byte) = k2" "unat (of_nat k3 :: byte) = k3"
    using r0 r1 r2 r3 by (simp_all add: unat_of_nat_byte)
  have "n div 0x40000 * 0x40000 + n div 0x1000 mod 0x40 * 0x1000 + n div 0x40 mod 0x40 * 0x40 + n mod 0x40 = n"
  proof -
    have e: "n div 0x40 div 0x40 = n div 0x1000" "n div 0x1000 div 0x40 = n div 0x40000"
      using div_mult2_eq [of n "0x40" "0x40"] div_mult2_eq [of n "0x1000" "0x40"] by simp_all
    have a: "n div 0x40 = n div 0x1000 * 0x40 + n div 0x40 mod 0x40"
      unfolding e(1) [symmetric] by (rule div_mult_mod_eq [symmetric])
    have b: "n div 0x1000 = n div 0x40000 * 0x40 + n div 0x1000 mod 0x40"
      unfolding e(2) [symmetric] by (rule div_mult_mod_eq [symmetric])
    from b have "n div 0x40000 * 0x40000 + n div 0x1000 mod 0x40 * 0x1000 = n div 0x1000 * 0x1000"
      by simp
    moreover from a have "n div 0x1000 * 0x1000 + n div 0x40 mod 0x40 * 0x40 = n div 0x40 * 0x40"
      by simp
    ultimately show ?thesis by simp
  qed
  then have v: "(k0 - 0xF0) * 0x40000 + (k1 - 0x80) * 0x1000 + (k2 - 0x80) * 0x40 + (k3 - 0x80) = n"
    by (simp add: k0_def k1_def k2_def k3_def)
  show ?thesis
    unfolding enc using r0 r1 r2 r3 assms
    by (simp add: word_less_nat_alt word_le_nat_alt cont_byte_def u v)
qed

lemma utf8_decode_bytes:
  assumes "scalar n"
  shows "utf8_decode (utf8_bytes n @ rest) = map_option ((#) n) (utf8_decode rest)"
proof -
  consider "n < 0x80" | "0x80 \<le> n" "n < 0x800" | "0x800 \<le> n" "n < 0x10000" | "0x10000 \<le> n"
    by linarith
  then show ?thesis
    using assms by cases (simp_all add: utf8_decode_1 utf8_decode_2 utf8_decode_3 utf8_decode_4)
qed

lemma utf8_decode_concat:
  "\<forall>n\<in>set ns. scalar n \<Longrightarrow> utf8_decode (concat (map utf8_bytes ns)) = Some ns"
  by (induction ns) (simp_all add: utf8_decode_bytes)

lemma surrogate_nat:
  "isHigh c \<longleftrightarrow> 0xD800 \<le> unat c \<and> unat c \<le> 0xDBFF"
  "isLow c \<longleftrightarrow> 0xDC00 \<le> unat c \<and> unat c \<le> 0xDFFF"
  by (simp_all add: isHigh_def isLow_def word_le_nat_alt)

lemma lone_scalar: "scalar (lone c)"
  using unat_cu_less [of c] by (auto simp: lone_def scalar_def surrogate_nat)

lemma pair_scalar:
  assumes "isHigh c" "isLow d"
  shows "scalar (0x10000 + (unat c - 0xD800) * 0x400 + (unat d - 0xDC00))"
proof -
  from assms have "unat c - 0xD800 \<le> 0x3FF" "unat d - 0xDC00 \<le> 0x3FF"
    unfolding surrogate_nat by arith+
  then show ?thesis
    by (simp add: scalar_def)
qed

lemma scalarValues_scalar: "\<forall>n\<in>set (scalarValues s). scalar n"
  by (induction s rule: scalarValues.induct) (simp_all add: lone_scalar pair_scalar)

lemma utf16_lone:
  assumes "\<not> isHigh c" "\<not> isLow c"
  shows "utf16 (lone c) = [c]"
  using assms unat_cu_less [of c] by (simp add: lone_def utf16_def)

lemma utf16_pair:
  assumes "isHigh c" "isLow d"
  shows "utf16 (0x10000 + (unat c - 0xD800) * 0x400 + (unat d - 0xDC00)) = [c, d]"
proof -
  define x y where "x = unat c - 0xD800" and "y = unat d - 0xDC00"
  from assms have y: "y < 0x400" and c: "0xD800 + x = unat c" and d: "0xDC00 + y = unat d"
    unfolding x_def y_def surrogate_nat by arith+
  have n: "0x10000 + x * 0x400 + y - 0x10000 = x * 0x400 + y" "\<not> 0x10000 + x * 0x400 + y < 0x10000"
    by simp_all
  from y have q: "(x * 0x400 + y) div 0x400 = x" "(x * 0x400 + y) mod 0x400 = y"
    by simp_all
  show ?thesis
    unfolding x_def [symmetric] y_def [symmetric] utf16_def
    by (simp only: n q c d if_False) simp
qed

lemma wellFormed_utf16: "wellFormed s \<Longrightarrow> concat (map utf16 (scalarValues s)) = s"
proof (induction s rule: scalarValues.induct)
  case 1
  show ?case by simp
next
  case (2 c)
  then show ?case by (simp add: utf16_lone)
next
  case (3 c d cs)
  show ?case
  proof (cases "isHigh c")
    case True
    with "3.prems" have "isLow d" "wellFormed cs" by simp_all
    with True "3.IH"(1) show ?thesis by (simp add: utf16_pair)
  next
    case False
    with "3.prems" have "\<not> isLow c" "wellFormed (d # cs)" by simp_all
    with False "3.IH"(2) show ?thesis by (simp add: utf16_lone)
  qed
qed

lemma utf16_lone_surrogate:
  assumes "isHigh c \<or> isLow c"
  shows "utf16 (lone c) = [0xFFFD]"
  using assms by (auto simp: lone_def utf16_def)

lemma not_surrogate_FFFD: "\<not> isHigh 0xFFFD" "\<not> isLow 0xFFFD"
  by (simp_all add: isHigh_def isLow_def)

lemma utf16_wellFormed: "concat (map utf16 (scalarValues s)) = s \<Longrightarrow> wellFormed s"
proof (induction s rule: scalarValues.induct)
  case 1
  show ?case by simp
next
  case (2 c)
  show ?case
  proof (cases "isHigh c \<or> isLow c")
    case True
    with "2.prems" utf16_lone_surrogate [OF True] have "c = 0xFFFD" by simp
    with True not_surrogate_FFFD show ?thesis by simp
  next
    case False
    then show ?thesis by simp
  qed
next
  case (3 c d cs)
  show ?case
  proof (cases "isHigh c \<and> isLow d")
    case True
    with "3.prems" have "concat (map utf16 (scalarValues cs)) = cs"
      by (simp add: utf16_pair)
    with "3.IH"(1) True show ?thesis by simp
  next
    case False
    show ?thesis
    proof (cases "isHigh c \<or> isLow c")
      case s: True
      with "3.prems" False utf16_lone_surrogate [OF s] have "c = 0xFFFD" by simp
      with s not_surrogate_FFFD show ?thesis by simp
    next
      case n: False
      with "3.prems" False have "concat (map utf16 (scalarValues (d # cs))) = d # cs"
        by (simp add: utf16_lone)
      with "3.IH"(2) False n show ?thesis by simp
    qed
  qed
qed

text \<open>
  Claim C3, as the code has it. Decoding what \<open>toBase64\<close> gives (base64, then UTF-8)
  always succeeds, and yields the string with every surrogate that is not half of a pair
  replaced by U+FFFD: the encoder of the platform reads the string as scalar values. So
  the round trip yields the original string exactly when the string is well formed;
  multi-byte characters, supplementary ones included, come back as they were.
\<close>

theorem toBase64_roundtrip:
  "fromBase64 (toBase64 std s) = Some (concat (map utf16 (scalarValues s)))
   \<and> (wellFormed s \<longrightarrow> fromBase64 (toBase64 std s) = Some s)
   \<and> (fromBase64 (toBase64 std s) = Some s \<longrightarrow> wellFormed s)"
proof -
  have "utf8_decode (utf8_encode s) = Some (scalarValues s)"
    unfolding utf8_encode_def by (rule utf8_decode_concat [OF scalarValues_scalar])
  then have "fromBase64 (toBase64 std s) = Some (concat (map utf16 (scalarValues s)))"
    by (simp add: fromBase64_def toBase64_std base64_decode_bytes)
  then show ?thesis
    using wellFormed_utf16 [of s] utf16_wellFormed [of s] by auto
qed

text \<open>
  The theorem at a string with characters of one, two, three and four UTF-8 bytes.
\<close>

theorem toBase64_roundtrip_witness:
  "wellFormed (str ''h'' @ [0xE9, 0x20AC, 0xD83D, 0xDCC1])
   \<and> fromBase64 (toBase64 std (str ''h'' @ [0xE9, 0x20AC, 0xD83D, 0xDCC1]))
       = Some (str ''h'' @ [0xE9, 0x20AC, 0xD83D, 0xDCC1])"
proof -
  have w: "wellFormed (str ''h'' @ [0xE9, 0x20AC, 0xD83D, 0xDCC1])"
    by (simp add: str_def isHigh_def isLow_def)
  note r = toBase64_roundtrip [of "str ''h'' @ [0xE9, 0x20AC, 0xD83D, 0xDCC1]",
      THEN conjunct2, THEN conjunct1, rule_format, OF w]
  from w r show ?thesis
    by (rule conjI)
qed

text \<open>
  Claim C3 as the specification words it holds for arbitrary JavaScript string content.
  A string that is one high surrogate is encoded as the bytes of U+FFFD, and comes
  back as U+FFFD.
\<close>

theorem toBase64_lone_surrogate_counterexample:
  "toBase64 std [0xD800] = str ''77+9''
   \<and> fromBase64 (str ''77+9'') = Some [0xFFFD]
   \<and> fromBase64 (toBase64 std [0xD800]) \<noteq> Some [0xD800]"
proof -
  have a: "utf8_encode [0xD800] = [0xEF, 0xBF, 0xBD]"
    by (simp add: utf8_encode_def utf8_bytes_def lone_def isHigh_def isLow_def)
  have b: "toBase64 std [0xD800] = str ''77+9''"
    by (simp add: a toBase64_def std_def btoa_std_def binString_def b64chr_def str_def)
  have c: "base64_decode (str ''77+9'') = Some [0xEF, 0xBF, 0xBD]"
    by (simp add: str_def b64val_def)
  have d: "utf8_decode [0xEF, 0xBF, 0xBD] = Some [0xFFFD]"
    by (simp add: cont_byte_def scalar_def)
  have e: "fromBase64 (str ''77+9'') = Some [0xFFFD]"
    by (simp add: fromBase64_def c d utf16_def cont_byte_def scalar_def)
  from b e show ?thesis by simp
qed

section \<open>Properties of the response parser\<close>

subsection \<open>The pattern on one block\<close>





















subsection \<open>The matches of a document\<close>











subsection \<open>The replacements in a document\<close>



















text \<open>
  The hypothesis on the text between the blocks is needed. The code replaces the first
  occurrence of a matched text, not the matched span. In the input below the text
  before the block of \<open>a\<close> holds the marker keyword: once that block is replaced, its
  notice completes the text before it to a copy of the second match, and that copy is
  what the second notice replaces.
\<close>

lemma extractFiles_replaces_first_occurrence:
  "map m0 (matchAll
      (str ''[FILE: b]```'' @ str ''[FILE: a]'' @ [0x0A] @ str ''```'' @ [0x0A] @ str ''x'' @ [0x0A]
        @ str ''```'' @ str ''```'' @ str ''[FILE: b]```'' @ notice (str ''a'') @ str ''```''))
     = [str ''[FILE: a]'' @ [0x0A] @ str ''```'' @ [0x0A] @ str ''x'' @ [0x0A] @ str ''```'',
        str ''[FILE: b]```'' @ notice (str ''a'') @ str ''```'']
   \<and> extractFiles (\<lambda>i. [0x30 + of_nat i])
      (str ''[FILE: b]```'' @ str ''[FILE: a]'' @ [0x0A] @ str ''```'' @ [0x0A] @ str ''x'' @ [0x0A]
        @ str ''```'' @ str ''```'' @ str ''[FILE: b]```'' @ notice (str ''a'') @ str ''```'')
     = ([\<lparr>file_id = str ''0'', name = str ''a'', language = str ''text'', content = str ''x''\<rparr>,
         \<lparr>file_id = str ''1'', name = str ''b'', language = str ''text'',
          content = str ''> '' @ [0xD83D, 0xDCC1] @ str '' **File Updated: `a`**''\<rparr>],
        notice (str ''b'') @ str ''[FILE: b]```'' @ notice (str ''a'') @ str ''```'')"
  by code_simp

section \<open>The parser and the preview on ordinary input\<close>

text \<open>
  The parser on an ordinary response: a lower-case marker, a path with a slash, a
  language tag, and a body that is trimmed. A path with a space in it is no marker
  and the text stays as it is.
\<close>

lemma extractFiles_example:
  "extractFiles (\<lambda>i. str ''id'')
      (str ''Here: [file: src/App.js]'' @ [0x0A] @ str ''```JS '' @ [0x0A] @ str ''  let a = 1;'' @ [0x0A]
        @ str ''``` done'')
    = ([\<lparr>file_id = str ''id'', name = str ''src/App.js'', language = str ''JS'', content = str ''let a = 1;''\<rparr>],
       str ''Here: '' @ notice (str ''src/App.js'') @ str '' done'')
   \<and> extractFiles (\<lambda>i. str ''id'') (str ''[FILE: my file.js] ```x``` no block'')
    = ([], str ''[FILE: my file.js] ```x``` no block'')"
  by code_simp

text \<open>
  The preview of an HTML file and a style sheet, and of a working set with no HTML
  file.
\<close>

lemma previewDoc_example:
  "previewDoc asciiLower
      [\<lparr>file_id = str ''1'', name = str ''index.HTML'', language = str ''html'', content = str ''<body>Hello</body>''\<rparr>,
       \<lparr>file_id = str ''2'', name = str ''s.css'', language = str ''css'', content = str ''color:red;''\<rparr>]
    = Some (str ''<!DOCTYPE html><html><head><meta charset=\"UTF-8\"><meta name=\"viewport\" content=\"width=device-width, initial-scale=1.0\"><script src=\"https://cdn.tailwindcss.com\"></script><style>color:red;</style></head><body>Hello</body></html>'')
   \<and> previewDoc asciiLower
      [\<lparr>file_id = str ''2'', name = str ''s.css'', language = str ''css'', content = str ''color:red;''\<rparr>] = None"
  by code_simp

end
